theory Spec2Isabelle
  imports Complex_Main "HOL-Library.Sublist" "HOL-Library.Multiset"
begin

section \<open>Retry handler and circuit breaker (src/unnamed/part_005)\<close>

text \<open>
  JavaScript numbers that hold counts and millisecond timestamps are modelled as \<open>int\<close>;
  delays, which receive a fractional random jitter, are modelled as \<open>real\<close> (exact
  arithmetic, IEEE rounding is not modelled). \<open>Date.now()\<close> and \<open>Math.random()\<close>
  are read from an explicit environment.
\<close>

datatype CircuitState = CLOSED | OPEN | HALF_OPEN

record CircuitBreaker =
  state :: CircuitState
  failureCount :: int
  lastFailureTime :: int
  successCount :: int
  threshold :: int
  resetTimeMs :: int

text \<open>The constructor: a parameter that is \<open>undefined\<close> takes its default.\<close>

definition newCircuitBreaker :: "int option \<Rightarrow> int option \<Rightarrow> CircuitBreaker" where
  "newCircuitBreaker thr rst =
     \<lparr>state = CLOSED, failureCount = 0, lastFailureTime = 0, successCount = 0,
      threshold = (case thr of None \<Rightarrow> 5 | Some t \<Rightarrow> t),
      resetTimeMs = (case rst of None \<Rightarrow> 60000 | Some r \<Rightarrow> r)\<rparr>"

datatype ErrorType =
  NETWORK | AUTHENTICATION | RATE_LIMIT | VALIDATION | SERVER | CLIENT | TIMEOUT | UNKNOWN

text \<open>
  A thrown value as the handler inspects it: \<open>error.message\<close>, \<open>error.response?.status\<close>,
  \<open>error.statusCode\<close>, and, when the value is an instance of \<open>RetryableError\<close>, its
  \<open>type\<close> and \<open>isRetryable\<close> fields.
\<close>

record JsError =
  message :: "string option"
  responseStatus :: "int option"
  statusCode :: "int option"
  retryableError :: "(ErrorType \<times> bool) option"

definition breakerOpenError :: JsError where
  "breakerOpenError =
     \<lparr>message = Some ''Circuit breaker is OPEN - operation not allowed'',
      responseStatus = None, statusCode = None, retryableError = None\<rparr>"

definition onSuccess :: "CircuitBreaker \<Rightarrow> CircuitBreaker" where
  "onSuccess cb =
     (let cb1 = cb\<lparr>failureCount := 0\<rparr> in
      if state cb1 = HALF_OPEN then
        (let cb2 = cb1\<lparr>successCount := successCount cb1 + 1\<rparr> in
         if successCount cb2 \<ge> 3 then cb2\<lparr>state := CLOSED\<rparr> else cb2)
      else cb1)"

definition onFailure :: "CircuitBreaker \<Rightarrow> int \<Rightarrow> CircuitBreaker" where
  "onFailure cb now =
     (let cb1 = cb\<lparr>failureCount := failureCount cb + 1, lastFailureTime := now\<rparr> in
      if failureCount cb1 \<ge> threshold cb1 then cb1\<lparr>state := OPEN\<rparr> else cb1)"

text \<open>
  \<open>execute cb now failNow outcome\<close>: \<open>now\<close> is \<open>Date.now()\<close> as read by the test of the open state,
  \<open>failNow\<close> as read by \<open>onFailure\<close>, \<open>outcome\<close> is what the operation does if it is
  invoked (\<open>Inl\<close>: it throws, \<open>Inr\<close>: it returns). The result is the breaker afterwards,
  what \<open>execute\<close> throws or returns, and the breaker state in which the operation was
  invoked (\<open>None\<close> when it was not invoked).
\<close>

definition execute ::
  "CircuitBreaker \<Rightarrow> int \<Rightarrow> int \<Rightarrow> JsError + 'a \<Rightarrow>
   CircuitBreaker \<times> (JsError + 'a) \<times> CircuitState option" where
  "execute cb now failNow outcome =
     (if state cb = OPEN \<and> now - lastFailureTime cb < resetTimeMs cb
      then (cb, Inl breakerOpenError, None)
      else
        (let cb1 = (if state cb = OPEN then cb\<lparr>state := HALF_OPEN, successCount := 0\<rparr> else cb) in
         case outcome of
           Inr result \<Rightarrow> (onSuccess cb1, Inr result, Some (state cb1))
         | Inl err \<Rightarrow> (onFailure cb1 failNow, Inl err, Some (state cb1))))"

definition reset :: "CircuitBreaker \<Rightarrow> CircuitBreaker" where
  "reset cb = cb\<lparr>state := CLOSED, failureCount := 0, successCount := 0, lastFailureTime := 0\<rparr>"

text \<open>A run of calls through one breaker: each call is (time of the call, time of its failure, outcome).\<close>

fun executeAll :: "CircuitBreaker \<Rightarrow> (int \<times> int \<times> (JsError + 'a)) list \<Rightarrow> CircuitBreaker" where
  "executeAll cb [] = cb"
| "executeAll cb ((now, failNow, outcome) # calls) =
     executeAll (fst (execute cb now failNow outcome)) calls"

record RetryConfig =
  maxRetries :: int
  baseDelayMs :: real
  maxDelayMs :: real
  exponentialBackoff :: bool
  jitterMs :: "real option"
  retryableErrors :: "string list option"
  circuitBreakerThreshold :: "int option"
  circuitBreakerResetTimeMs :: "int option"

text \<open>
  \<open>Partial<RetryConfig>\<close>: \<open>None\<close> is a key that is absent, so the default's value stays.
\<close>

record PartialRetryConfig =
  p_maxRetries :: "int option"
  p_baseDelayMs :: "real option"
  p_maxDelayMs :: "real option"
  p_exponentialBackoff :: "bool option"
  p_jitterMs :: "real option option"
  p_retryableErrors :: "string list option option"
  p_circuitBreakerThreshold :: "int option option"
  p_circuitBreakerResetTimeMs :: "int option option"

definition orElse :: "'a option \<Rightarrow> 'a \<Rightarrow> 'a" where
  "orElse v d = (case v of None \<Rightarrow> d | Some x \<Rightarrow> x)"

text \<open>The spread \<open>{ ...defaultConfig, ...config }\<close>.\<close>

definition mergeConfig :: "RetryConfig \<Rightarrow> PartialRetryConfig option \<Rightarrow> RetryConfig" where
  "mergeConfig d config =
     (case config of
        None \<Rightarrow> d
      | Some c \<Rightarrow>
          \<lparr>maxRetries = orElse (p_maxRetries c) (maxRetries d),
           baseDelayMs = orElse (p_baseDelayMs c) (baseDelayMs d),
           maxDelayMs = orElse (p_maxDelayMs c) (maxDelayMs d),
           exponentialBackoff = orElse (p_exponentialBackoff c) (exponentialBackoff d),
           jitterMs = orElse (p_jitterMs c) (jitterMs d),
           retryableErrors = orElse (p_retryableErrors c) (retryableErrors d),
           circuitBreakerThreshold = orElse (p_circuitBreakerThreshold c) (circuitBreakerThreshold d),
           circuitBreakerResetTimeMs =
             orElse (p_circuitBreakerResetTimeMs c) (circuitBreakerResetTimeMs d)\<rparr>)"

text \<open>\<open>String.prototype.toLowerCase\<close> on the ASCII letters, \<open>String.prototype.includes\<close>.\<close>

definition lowerChar :: "char \<Rightarrow> char" where
  "lowerChar c =
     (case map_of (zip ''ABCDEFGHIJKLMNOPQRSTUVWXYZ'' ''abcdefghijklmnopqrstuvwxyz'') c of
        Some l \<Rightarrow> l
      | None \<Rightarrow> c)"

definition toLowerCase :: "string \<Rightarrow> string" where
  "toLowerCase s = map lowerChar s"

fun str_includes :: "string \<Rightarrow> string \<Rightarrow> bool" where
  "str_includes [] sub = (sub = [])"
| "str_includes (c # cs) sub = (prefix sub (c # cs) \<or> str_includes cs sub)"

text \<open>\<open>error.response?.status || error.statusCode\<close>: a status of 0 is falsy.\<close>

definition errorStatus :: "JsError \<Rightarrow> int option" where
  "errorStatus e =
     (case responseStatus e of
        Some s \<Rightarrow> if s \<noteq> 0 then Some s else statusCode e
      | None \<Rightarrow> statusCode e)"

definition errorMessageLower :: "JsError \<Rightarrow> string" where
  "errorMessageLower e = (case message e of None \<Rightarrow> [] | Some m \<Rightarrow> toLowerCase m)"

definition isRetryableError :: "JsError \<Rightarrow> RetryConfig \<Rightarrow> bool" where
  "isRetryableError e config =
     (case retryableError e of
        Some (t, isRetryable) \<Rightarrow> isRetryable
      | None \<Rightarrow>
          (let errorMessage = errorMessageLower e in
           if str_includes errorMessage ''network'' \<or>
              str_includes errorMessage ''timeout'' \<or>
              str_includes errorMessage ''connection'' \<or>
              str_includes errorMessage ''econnreset'' \<or>
              str_includes errorMessage ''enotfound''
           then True
           else if (case errorStatus e of
                      Some s \<Rightarrow> s \<noteq> 0 \<and> s \<in> set [408, 429, 500, 502, 503, 504]
                    | None \<Rightarrow> False)
           then True
           else (case retryableErrors config of
                   Some res \<Rightarrow> list_ex (\<lambda>r. str_includes errorMessage (toLowerCase r)) res
                 | None \<Rightarrow> False)))"

definition categorizeError :: "JsError \<Rightarrow> ErrorType" where
  "categorizeError e =
     (let msg = errorMessageLower e; sc = errorStatus e in
      if sc = Some 401 \<or> sc = Some 403 then AUTHENTICATION
      else if sc = Some 429 then RATE_LIMIT
      else if (case sc of Some s \<Rightarrow> s \<ge> 400 \<and> s < 500 | None \<Rightarrow> False) then CLIENT
      else if (case sc of Some s \<Rightarrow> s \<ge> 500 | None \<Rightarrow> False) then SERVER
      else if str_includes msg ''timeout'' then TIMEOUT
      else if str_includes msg ''network'' \<or> str_includes msg ''connection'' \<or>
              str_includes msg ''econnreset'' \<or> str_includes msg ''enotfound'' then NETWORK
      else if str_includes msg ''validation'' \<or> str_includes msg ''invalid'' then VALIDATION
      else UNKNOWN)"

text \<open>\<open>calculateDelay attempt config r\<close>, where \<open>r\<close> is the value of \<open>Math.random()\<close>.\<close>

definition calculateDelay :: "int \<Rightarrow> RetryConfig \<Rightarrow> real \<Rightarrow> real" where
  "calculateDelay attempt config r =
     (let delay0 = (if exponentialBackoff config
                    then min (baseDelayMs config * 2 powi (attempt - 1)) (maxDelayMs config)
                    else baseDelayMs config);
          delay1 = (case jitterMs config of
                      Some j \<Rightarrow> if j \<noteq> 0 then delay0 + r * j else delay0
                    | None \<Rightarrow> delay0)
      in min delay1 (maxDelayMs config))"

text \<open>
  The environment of one \<open>executeWithRetry\<close> call, indexed by the attempt number: what the
  operation does when invoked during attempt \<open>n\<close>, the clock readings of the breaker's test of the open state
  and of \<open>onFailure\<close> during attempt \<open>n\<close>, the random number drawn after attempt \<open>n\<close>
  failed, the clock at the start of the call and when the call returns at attempt \<open>n\<close>.
\<close>

record 'a Env =
  operation :: "int \<Rightarrow> JsError + 'a"
  callNow :: "int \<Rightarrow> int"
  failNow :: "int \<Rightarrow> int"
  mathRandom :: "int \<Rightarrow> real"
  startNow :: int
  endNow :: "int \<Rightarrow> int"

record 'a RetryResult =
  success :: bool
  data :: "'a option"
  error :: "JsError option"
  attempts :: int
  totalTime :: int

text \<open>
  The effects of a call, in order: the operation is invoked during attempt \<open>n\<close>, attempt
  \<open>n\<close> returns, attempt \<open>n\<close> throws \<open>e\<close>, the handler sleeps \<open>d\<close> milliseconds.
\<close>

datatype Event = Invoked int | Returned int | Threw int JsError | Slept real

text \<open>
  The expression \<open>circuitBreaker ? await circuitBreaker.execute(operation) : await operation()\<close>
  of attempt \<open>n\<close>.
\<close>

definition tryOperation ::
  "'a Env \<Rightarrow> CircuitBreaker option \<Rightarrow> int \<Rightarrow>
   CircuitBreaker option \<times> (JsError + 'a) \<times> Event list" where
  "tryOperation env circuitBreaker n =
     (case circuitBreaker of
        Some cb \<Rightarrow>
          (case execute cb (callNow env n) (failNow env n) (operation env n) of
             (cb', r, invokedIn) \<Rightarrow>
               (Some cb', r, (if invokedIn = None then [] else [Invoked n])))
      | None \<Rightarrow> (None, operation env n, [Invoked n]))"

definition failureResult :: "'a Env \<Rightarrow> JsError option \<Rightarrow> int \<Rightarrow> 'a RetryResult" where
  "failureResult env lastError n =
     \<lparr>success = False, data = None, error = lastError, attempts = n,
      totalTime = endNow env n - startNow env\<rparr>"

definition withEvents ::
  "Event list \<Rightarrow> 'r \<times> 'c \<times> Event list \<Rightarrow> 'r \<times> 'c \<times> Event list" where
  "withEvents evs x = (case x of (r, cb, tr) \<Rightarrow> (r, cb, evs @ tr))"

text \<open>
  The \<open>for\<close> loop of \<open>executeWithRetry\<close> from the attempt \<open>attempts\<close> on, and the
  \<open>return\<close> after it.
\<close>

function retryLoop ::
  "'a Env \<Rightarrow> RetryConfig \<Rightarrow> CircuitBreaker option \<Rightarrow> int \<Rightarrow> JsError option \<Rightarrow>
   'a RetryResult \<times> CircuitBreaker option \<times> Event list" where
  "retryLoop env finalConfig circuitBreaker n lastError =
     (if n \<le> maxRetries finalConfig + 1 then
        (case tryOperation env circuitBreaker n of
           (cb', Inr result, evs) \<Rightarrow>
             (\<lparr>success = True, data = Some result, error = None, attempts = n,
               totalTime = endNow env n - startNow env\<rparr>, cb', evs @ [Returned n])
         | (cb', Inl err, evs) \<Rightarrow>
             if \<not> isRetryableError err finalConfig
             then (failureResult env (Some err) n, cb', evs @ [Threw n err])
             else if n > maxRetries finalConfig
             then (failureResult env (Some err) n, cb', evs @ [Threw n err])
             else withEvents
                    (evs @ [Threw n err, Slept (calculateDelay n finalConfig (mathRandom env n))])
                    (retryLoop env finalConfig cb' (n + 1) (Some err)))
      else (failureResult env lastError n, circuitBreaker, []))"
  by pat_completeness auto
termination
  by (relation "measure (\<lambda>(env, c, cb, n, e). nat (maxRetries c + 2 - n))") auto

record RetryHandler =
  defaultConfig :: RetryConfig
  circuitBreakers :: "string \<rightharpoonup> CircuitBreaker"

text \<open>
  \<open>executeWithRetry\<close>. A key that is \<open>undefined\<close> or the empty string is falsy: no breaker
  is used. \<open>breakerFor\<close> is the breaker the call gets or creates; the breaker object is
  shared with the handler's map, so its final state is written back under the key.
\<close>

definition breakerFor :: "RetryHandler \<Rightarrow> RetryConfig \<Rightarrow> string option \<Rightarrow> CircuitBreaker option" where
  "breakerFor h finalConfig circuitBreakerKey =
     (case circuitBreakerKey of
        None \<Rightarrow> None
      | Some k \<Rightarrow>
          if k = [] then None
          else (case circuitBreakers h k of
                  Some b \<Rightarrow> Some b
                | None \<Rightarrow> Some (newCircuitBreaker (circuitBreakerThreshold finalConfig)
                                  (circuitBreakerResetTimeMs finalConfig))))"

definition storeBreaker :: "RetryHandler \<Rightarrow> string option \<Rightarrow> CircuitBreaker option \<Rightarrow> RetryHandler" where
  "storeBreaker h circuitBreakerKey cb =
     (case (circuitBreakerKey, cb) of
        (Some k, Some b) \<Rightarrow> h\<lparr>circuitBreakers := (circuitBreakers h)(k \<mapsto> b)\<rparr>
      | _ \<Rightarrow> h)"

definition executeWithRetry ::
  "RetryHandler \<Rightarrow> 'a Env \<Rightarrow> PartialRetryConfig option \<Rightarrow> string option \<Rightarrow>
   RetryHandler \<times> 'a RetryResult \<times> Event list" where
  "executeWithRetry h env config circuitBreakerKey =
     (let finalConfig = mergeConfig (defaultConfig h) config in
      case retryLoop env finalConfig (breakerFor h finalConfig circuitBreakerKey) 1 None of
        (r, cb', tr) \<Rightarrow> (storeBreaker h circuitBreakerKey cb', r, tr))"

text \<open>Observations on a trace of events.\<close>

fun invocations :: "Event list \<Rightarrow> nat" where
  "invocations [] = 0"
| "invocations (Invoked n # evs) = Suc (invocations evs)"
| "invocations (ev # evs) = invocations evs"

text \<open>The errors after which the call went on: those thrown before the last event.\<close>

fun retriedErrors :: "Event list \<Rightarrow> JsError list" where
  "retriedErrors [] = []"
| "retriedErrors [ev] = []"
| "retriedErrors (Threw n e # evs) = e # retriedErrors evs"
| "retriedErrors (ev # evs) = retriedErrors evs"

fun attemptOf :: "Event \<Rightarrow> int option" where
  "attemptOf (Invoked n) = Some n"
| "attemptOf (Returned n) = Some n"
| "attemptOf (Threw n e) = Some n"
| "attemptOf (Slept d) = None"

text \<open>
  \<open>delayBefore tr n 0\<close>: the time slept between the end of the attempt before \<open>n\<close> (or
  the start of the call) and the first event of attempt \<open>n\<close>; \<open>None\<close> when attempt \<open>n\<close>
  does not take place.
\<close>

fun delayBefore :: "Event list \<Rightarrow> int \<Rightarrow> real \<Rightarrow> real option" where
  "delayBefore [] n acc = None"
| "delayBefore (Slept d # evs) n acc = delayBefore evs n (acc + d)"
| "delayBefore (ev # evs) n acc =
     (if attemptOf ev = Some n then Some acc else delayBefore evs n 0)"

text \<open>
  A call is not disturbed by its breaker during \<open>k\<close> failures when it has none, or when the
  breaker is closed and \<open>k\<close> more failures do not reach its threshold.
\<close>

definition undisturbed :: "CircuitBreaker option \<Rightarrow> int \<Rightarrow> bool" where
  "undisturbed cbo k =
     (case cbo of
        None \<Rightarrow> True
      | Some cb \<Rightarrow> state cb = CLOSED \<and> failureCount cb + k < threshold cb)"

declare retryLoop.simps [simp del]

section \<open>Content tester (src/src/core/content-tester.ts)\<close>

text \<open>
  A platform is its identifier string (\<open>PlatformType\<close> is a union of string literals).
  \<open>AIContent\<close> carries the fields the tester reads; \<open>otherFields\<close> tells whether any other
  property is truthy. String lengths count characters of an ASCII text.
\<close>

type_synonym PlatformType = string

record AIContent =
  contentType :: string
  title :: string
  content :: string
  excerpt :: "string option"
  tags :: "string list option"
  images :: "string list option"
  twitterThread :: "string list option"
  otherFields :: "string \<Rightarrow> bool"

datatype Severity = SevLow | SevMedium | SevHigh | SevCritical

datatype IssueType = IssueError | IssueWarning | IssueInfo

text \<open>An issue without its message and suggestion texts.\<close>

record ContentIssue =
  issueType :: IssueType
  field :: string
  severity :: Severity

text \<open>
  A test result without its suggestion texts and its engagement estimate (floating point).
\<close>

record ContentTestResult =
  platform :: PlatformType
  isCompatible :: bool
  score :: int
  issues :: "ContentIssue list"

record ImageRequirements =
  maxSize :: "int option"
  supportedFormats :: "string list option"
  maxCount :: "int option"

record PlatformRequirements =
  maxTitleLength :: "int option"
  maxContentLength :: "int option"
  maxExcerptLength :: "int option"
  maxTags :: "int option"
  maxHashtags :: "int option"
  requiredFields :: "string list option"
  supportedContentTypes :: "string list option"
  imageRequirements :: "ImageRequirements option"

definition noRequirements :: PlatformRequirements where
  "noRequirements =
     \<lparr>maxTitleLength = None, maxContentLength = None, maxExcerptLength = None, maxTags = None,
      maxHashtags = None, requiredFields = None, supportedContentTypes = None,
      imageRequirements = None\<rparr>"

text \<open>The table built by \<open>initializePlatformRequirements\<close> (without \<open>characterLimits\<close>, which nothing reads).\<close>

definition platformRequirements :: "(PlatformType \<times> PlatformRequirements) list" where
  "platformRequirements =
   [(''twitter'', noRequirements\<lparr>maxTitleLength := Some 280, maxContentLength := Some 280,
        maxHashtags := Some 3,
        supportedContentTypes := Some [''social-post'', ''twitter-thread'']\<rparr>),
    (''linkedin'', noRequirements\<lparr>maxTitleLength := Some 200, maxContentLength := Some 3000,
        maxExcerptLength := Some 300, maxHashtags := Some 5,
        supportedContentTypes := Some [''social-post'', ''linkedin-article'']\<rparr>),
    (''instagram'', noRequirements\<lparr>maxContentLength := Some 2200, maxHashtags := Some 30,
        supportedContentTypes :=
          Some [''social-post'', ''social-story'', ''social-reel'', ''social-carousel''],
        imageRequirements := Some \<lparr>maxSize = Some (8 * 1024 * 1024),
          supportedFormats = Some [''jpg'', ''jpeg'', ''png''], maxCount = Some 10\<rparr>\<rparr>),
    (''medium'', noRequirements\<lparr>maxTitleLength := Some 100, maxContentLength := Some 1000000,
        maxTags := Some 5, supportedContentTypes := Some [''article'', ''medium-story'']\<rparr>),
    (''ghost'', noRequirements\<lparr>maxTitleLength := Some 200, maxContentLength := Some 1000000,
        maxExcerptLength := Some 300, supportedContentTypes := Some [''blog'', ''article'']\<rparr>),
    (''wordpress'', noRequirements\<lparr>maxTitleLength := Some 200, maxContentLength := Some 1000000,
        maxExcerptLength := Some 300,
        supportedContentTypes := Some [''blog'', ''article'', ''page'']\<rparr>),
    (''webflow'', noRequirements\<lparr>maxTitleLength := Some 200, maxContentLength := Some 1000000,
        supportedContentTypes := Some [''blog'', ''article'', ''landing-page'']\<rparr>),
    (''substack'', noRequirements\<lparr>maxTitleLength := Some 200, maxContentLength := Some 1000000,
        maxExcerptLength := Some 300,
        supportedContentTypes := Some [''newsletter'', ''newsletter-issue'', ''article'']\<rparr>)]"

text \<open>A limit that is \<open>undefined\<close> or 0 is falsy and switches its test off.\<close>

definition exceeds :: "int option \<Rightarrow> nat \<Rightarrow> bool" where
  "exceeds limit n = (case limit of Some m \<Rightarrow> m \<noteq> 0 \<and> int n > m | None \<Rightarrow> False)"

definition isWordChar :: "char \<Rightarrow> bool" where
  "isWordChar c =
     (c \<in> set ''ABCDEFGHIJKLMNOPQRSTUVWXYZabcdefghijklmnopqrstuvwxyz0123456789_'')"

text \<open>The number of matches of \<open>/#\w+/g\<close>: the hash signs followed by a word character.\<close>

fun hashtagMatches :: "string \<Rightarrow> nat" where
  "hashtagMatches (a # b # cs) =
     (if a = CHR ''#'' \<and> isWordChar b then 1 else 0) + hashtagMatches (b # cs)"
| "hashtagMatches cs = 0"

definition countHashtags :: "AIContent \<Rightarrow> nat" where
  "countHashtags c =
     hashtagMatches (title c @ '' '' @ content c @ '' '' @
                     (case excerpt c of None \<Rightarrow> [] | Some e \<Rightarrow> e))"

definition hasRequiredField :: "AIContent \<Rightarrow> string \<Rightarrow> bool" where
  "hasRequiredField c f =
     (if f = ''title'' then title c \<noteq> []
      else if f = ''content'' then content c \<noteq> []
      else if f = ''excerpt'' then (case excerpt c of Some e \<Rightarrow> e \<noteq> [] | None \<Rightarrow> False)
      else if f = ''tags'' then (case tags c of Some ts \<Rightarrow> length ts > 0 | None \<Rightarrow> False)
      else if f = ''images'' then (case images c of Some is \<Rightarrow> length is > 0 | None \<Rightarrow> False)
      else otherFields c f)"

definition testImages :: "string list \<Rightarrow> ImageRequirements \<Rightarrow> ContentIssue list" where
  "testImages imgs req =
     (if exceeds (maxCount req) (length imgs)
      then [\<lparr>issueType = IssueError, field = ''images'', severity = SevHigh\<rparr>] else [])"

definition testPlatformSpecificRequirements :: "AIContent \<Rightarrow> PlatformType \<Rightarrow> ContentIssue list" where
  "testPlatformSpecificRequirements c p =
     (if p = ''twitter'' then
        (case twitterThread c of
           Some tweets \<Rightarrow>
             if contentType c = ''twitter-thread'' \<and> sum_list (map length tweets) > 2800
             then [\<lparr>issueType = IssueWarning, field = ''twitterThread'', severity = SevMedium\<rparr>]
             else []
         | None \<Rightarrow> [])
      else if p = ''linkedin'' then
        (if str_includes (content c) ''!!!'' \<or> str_includes (content c) ''???''
         then [\<lparr>issueType = IssueInfo, field = ''content'', severity = SevLow\<rparr>] else [])
      else if p = ''instagram'' then
        (if (case images c of None \<Rightarrow> True | Some is \<Rightarrow> length is = 0)
         then [\<lparr>issueType = IssueWarning, field = ''images'', severity = SevMedium\<rparr>] else [])
      else [])"

text \<open>
  \<open>testContentForPlatform\<close>: the checks in the source's order, each giving its issues and
  the points it takes off the score.
\<close>

definition contentChecks ::
  "AIContent \<Rightarrow> PlatformType \<Rightarrow> PlatformRequirements \<Rightarrow> (ContentIssue list \<times> int) list" where
  "contentChecks c p req =
     [(case supportedContentTypes req of
         Some ts \<Rightarrow> if contentType c \<notin> set ts
                    then ([\<lparr>issueType = IssueWarning, field = ''type'', severity = SevMedium\<rparr>], 20)
                    else ([], 0)
       | None \<Rightarrow> ([], 0)),
      (if exceeds (maxTitleLength req) (length (title c))
       then ([\<lparr>issueType = IssueError, field = ''title'', severity = SevHigh\<rparr>], 30) else ([], 0)),
      (if exceeds (maxContentLength req) (length (content c))
       then ([\<lparr>issueType = IssueError, field = ''content'', severity = SevHigh\<rparr>], 30)
       else ([], 0)),
      (case excerpt c of
         Some e \<Rightarrow> if e \<noteq> [] \<and> exceeds (maxExcerptLength req) (length e)
                   then ([\<lparr>issueType = IssueWarning, field = ''excerpt'', severity = SevMedium\<rparr>], 10)
                   else ([], 0)
       | None \<Rightarrow> ([], 0)),
      (case tags c of
         Some ts \<Rightarrow> if exceeds (maxTags req) (length ts)
                    then ([\<lparr>issueType = IssueWarning, field = ''tags'', severity = SevMedium\<rparr>], 10)
                    else ([], 0)
       | None \<Rightarrow> ([], 0)),
      (if exceeds (maxHashtags req) (countHashtags c)
       then ([\<lparr>issueType = IssueWarning, field = ''hashtags'', severity = SevMedium\<rparr>], 10)
       else ([], 0)),
      (case requiredFields req of
         Some fs \<Rightarrow>
           (let missing = filter (\<lambda>f. \<not> hasRequiredField c f) fs in
            (map (\<lambda>f. \<lparr>issueType = IssueError, field = f, severity = SevHigh\<rparr>) missing,
             25 * int (length missing)))
       | None \<Rightarrow> ([], 0)),
      (case (imageRequirements req, images c) of
         (Some ir, Some imgs) \<Rightarrow>
           (let imageIssues = testImages imgs ir in (imageIssues, int (length imageIssues) * 5))
       | _ \<Rightarrow> ([], 0)),
      (let platformSpecificIssues = testPlatformSpecificRequirements c p in
       (platformSpecificIssues, int (length platformSpecificIssues) * 5))]"

definition testContentForPlatform :: "AIContent \<Rightarrow> PlatformType \<Rightarrow> ContentTestResult" where
  "testContentForPlatform c p =
     (case map_of platformRequirements p of
        None \<Rightarrow>
          \<lparr>platform = p, isCompatible = False, score = 0,
           issues = [\<lparr>issueType = IssueError, field = ''platform'', severity = SevCritical\<rparr>]\<rparr>
      | Some req \<Rightarrow>
          (let checks = contentChecks c p req;
               found = concat (map fst checks);
               points = 100 - sum_list (map snd checks)
           in \<lparr>platform = p,
               isCompatible =
                 (length (filter (\<lambda>i. severity i = SevCritical \<or> severity i = SevHigh) found) = 0),
               score = max 0 points,
               issues = found\<rparr>))"

text \<open>A JavaScript \<open>Map\<close> keeps its keys in insertion order: an association list.\<close>

fun mapSet :: "'k \<Rightarrow> 'v \<Rightarrow> ('k \<times> 'v) list \<Rightarrow> ('k \<times> 'v) list" where
  "mapSet k v [] = [(k, v)]"
| "mapSet k v ((k', v') # kvs) =
     (if k = k' then (k, v) # kvs else (k', v') # mapSet k v kvs)"

definition mapValues :: "('k \<times> 'v) list \<Rightarrow> 'v list" where
  "mapValues m = map snd m"

definition testContentForMultiplePlatforms ::
  "AIContent \<Rightarrow> PlatformType list \<Rightarrow> (PlatformType \<times> ContentTestResult) list" where
  "testContentForMultiplePlatforms c ps =
     foldl (\<lambda>results p. mapSet p (testContentForPlatform c p) results) [] ps"

text \<open>
  \<open>Array.prototype.sort\<close> with a comparator: the sort is stable, so an element stays in
  front of the later elements it does not compare greater than.
\<close>

fun insertBy :: "('a \<Rightarrow> 'a \<Rightarrow> int) \<Rightarrow> 'a \<Rightarrow> 'a list \<Rightarrow> 'a list" where
  "insertBy cmp x [] = [x]"
| "insertBy cmp x (y # ys) = (if cmp x y \<le> 0 then x # y # ys else y # insertBy cmp x ys)"

definition sortBy :: "('a \<Rightarrow> 'a \<Rightarrow> int) \<Rightarrow> 'a list \<Rightarrow> 'a list" where
  "sortBy cmp xs = foldr (insertBy cmp) xs []"

text \<open>
  \<open>getBestPlatformsForContent\<close>. \<open>results.get(platform)!\<close> is found for every platform of
  the list, since \<open>testContentForMultiplePlatforms\<close> has set it.
\<close>

definition getBestPlatformsForContent :: "AIContent \<Rightarrow> PlatformType list \<Rightarrow> PlatformType list" where
  "getBestPlatformsForContent c availablePlatforms =
     (let results = testContentForMultiplePlatforms c availablePlatforms;
          paired = map (\<lambda>p. (p, case map_of results p of
                                    Some r \<Rightarrow> r
                                  | None \<Rightarrow> testContentForPlatform c p)) availablePlatforms
      in map fst
           (sortBy (\<lambda>a b. score (snd b) - score (snd a))
              (filter (\<lambda>item. isCompatible (snd item)) paired)))"

section \<open>Queue items, publisher and clock\<close>

datatype Priority = Low | Medium | High | Urgent

datatype Status = Pending | Testing | Ready | Publishing | Published | Failed

record PublishResult =
  pr_success :: bool
  pr_platform :: PlatformType

text \<open>
  \<open>BulkPublishItem\<close> and \<open>QueuedContent\<close> declare the same fields, and \<open>QueuedContent\<close>
  has \<open>scheduledFor\<close> in addition. The item's \<open>id\<close> and \<open>content\<close> fields are named
  \<open>item_id\<close> and \<open>itemContent\<close> here, and a field name that several interfaces share
  carries a prefix (\<open>pr_success\<close>, \<open>sc_maxRetries\<close>, \<open>bp_maxRetries\<close>). Dates are
  milliseconds since the epoch.
\<close>

record BulkPublishItem =
  item_id :: string
  itemContent :: AIContent
  platforms :: "PlatformType list"
  priority :: Priority
  status :: Status
  testResults :: "(PlatformType \<times> ContentTestResult) list option"
  publishResults :: "PublishResult list option"
  retryCount :: "int option"
  createdAt :: int
  updatedAt :: int

record QueuedContent = BulkPublishItem +
  scheduledFor :: int

text \<open>
  The external publisher: what the \<open>k\<close>-th call of \<open>publishToMultiple\<close> does with a
  content and its platforms, \<open>Inl m\<close> when it rejects with an error of message \<open>m\<close>.
  Every method of the scheduler and of the bulk publisher takes the clock reading \<open>now\<close>
  as a parameter and uses it for all its readings of the clock.
\<close>

type_synonym Publisher = "nat \<Rightarrow> AIContent \<Rightarrow> PlatformType list \<Rightarrow> string + PublishResult list"

definition priorityOrder :: "Priority \<Rightarrow> int" where
  "priorityOrder p = (case p of Urgent \<Rightarrow> 4 | High \<Rightarrow> 3 | Medium \<Rightarrow> 2 | Low \<Rightarrow> 1)"

text \<open>\<open>x || d\<close> on an optional number: \<open>undefined\<close> and 0 are falsy.\<close>

definition orDefault :: "int option \<Rightarrow> int \<Rightarrow> int" where
  "orDefault v d = (case v of Some x \<Rightarrow> if x \<noteq> 0 then x else d | None \<Rightarrow> d)"

section \<open>Content scheduler (src/unnamed/part_006)\<close>

record OptimalTime =
  dayOfWeek :: int
  hour :: int
  engagement :: int

text \<open>
  The fields of \<open>ScheduleConfig\<close> that the scheduler reads. \<open>optimalTimes\<close> is an object
  keyed by platform.
\<close>

record ScheduleConfig =
  optimalTimes :: "(PlatformType \<rightharpoonup> OptimalTime list) option"
  autoTest :: "bool option"
  retryFailed :: "bool option"
  sc_maxRetries :: "int option"

record ContentScheduler =
  scheduleConfig :: ScheduleConfig
  contentQueue :: "(string \<times> QueuedContent) list"
  publishCalls :: nat

record ScheduleResult =
  sr_success :: bool
  scheduledContent :: "QueuedContent list"
  sr_errors :: "string list"

text \<open>
  The constructor: \<open>queue\<close> is \<open>config.contentQueue\<close>, the field of the configuration
  that only the constructor reads; its items are entered into the queue in their order.
\<close>

definition newContentScheduler :: "ScheduleConfig \<Rightarrow> QueuedContent list option \<Rightarrow> ContentScheduler" where
  "newContentScheduler cfg queue =
     \<lparr>scheduleConfig = cfg,
      contentQueue = foldl (\<lambda>q item. mapSet (item_id item) item q) []
                       (case queue of Some given \<Rightarrow> given | None \<Rightarrow> []),
      publishCalls = 0\<rparr>"

text \<open>
  \<open>updateQueuedContent\<close>: the \<open>updates\<close> object is a function on the item, \<open>now\<close> is
  \<open>new Date()\<close>.
\<close>

definition updateQueuedContent ::
  "ContentScheduler \<Rightarrow> string \<Rightarrow> (QueuedContent \<Rightarrow> QueuedContent) \<Rightarrow> int \<Rightarrow>
   ContentScheduler \<times> bool" where
  "updateQueuedContent s contentId updates now =
     (case map_of (contentQueue s) contentId of
        None \<Rightarrow> (s, False)
      | Some c \<Rightarrow>
          (s\<lparr>contentQueue := mapSet contentId ((updates c)\<lparr>updatedAt := now\<rparr>) (contentQueue s)\<rparr>,
           True))"

definition readyOrder :: "QueuedContent \<Rightarrow> QueuedContent \<Rightarrow> int" where
  "readyOrder a b =
     (let priorityDiff = priorityOrder (priority b) - priorityOrder (priority a) in
      if priorityDiff \<noteq> 0 then priorityDiff else scheduledFor a - scheduledFor b)"

definition getReadyContent :: "ContentScheduler \<Rightarrow> int \<Rightarrow> QueuedContent list" where
  "getReadyContent s now =
     sortBy readyOrder
       (filter (\<lambda>c. status c = Ready \<and> scheduledFor c \<le> now) (mapValues (contentQueue s)))"

definition allSuccessful :: "PublishResult list \<Rightarrow> bool" where
  "allSuccessful rs = list_all pr_success rs"

text \<open>
  \<open>testContent\<close>. The tester of this model does not throw, so the \<open>catch\<close> branch is not
  reached.
\<close>

definition testContent :: "ContentScheduler \<Rightarrow> QueuedContent \<Rightarrow> int \<Rightarrow> ContentScheduler" where
  "testContent s queuedContent now =
     (let s1 = fst (updateQueuedContent s (item_id queuedContent) (\<lambda>c. c\<lparr>status := Testing\<rparr>) now);
          results = testContentForMultiplePlatforms (itemContent queuedContent)
                      (platforms queuedContent);
          isReady = list_all isCompatible (mapValues results)
      in fst (updateQueuedContent s1 (item_id queuedContent)
                (\<lambda>c. c\<lparr>status := (if isReady then Ready else Pending),
                        testResults := Some results\<rparr>) now))"

text \<open>
  The calendar of the model is UTC, where a day has 86400000 ms and 1 January 1970 was a
  Thursday. \<open>jsRem\<close> is the remainder operator \<open>%\<close>, which takes the sign of the dividend.
\<close>

definition getDay :: "int \<Rightarrow> int" where
  "getDay t = (t div 86400000 + 4) mod 7"

definition jsRem :: "int \<Rightarrow> int \<Rightarrow> int" where
  "jsRem a b = sgn a * (\<bar>a\<bar> mod \<bar>b\<bar>)"

definition createTimeForDay :: "int \<Rightarrow> int \<Rightarrow> int \<Rightarrow> int" where
  "createTimeForDay baseDate dow h =
     (let currentDay = getDay baseDate;
          daysUntilTarget = jsRem (dow - currentDay + 7) 7;
          date = baseDate + daysUntilTarget * 86400000
      in (date div 86400000) * 86400000 + h * 3600000)"

text \<open>The two nested loops of \<open>calculateOptimalTime\<close> visit these slots in this order.\<close>

definition slotsOf :: "(PlatformType \<rightharpoonup> OptimalTime list) \<Rightarrow> PlatformType list \<Rightarrow> OptimalTime list" where
  "slotsOf ot ps = concat (map (\<lambda>p. case ot p of Some ts \<Rightarrow> ts | None \<Rightarrow> []) ps)"

definition considerSlot :: "int \<Rightarrow> int \<times> int \<Rightarrow> OptimalTime \<Rightarrow> int \<times> int" where
  "considerSlot now best t =
     (case best of (bestTime, bestScore) \<Rightarrow>
        (let scheduledTime = createTimeForDay now (dayOfWeek t) (hour t) in
         if scheduledTime > now \<and> engagement t > bestScore
         then (scheduledTime, engagement t) else (bestTime, bestScore)))"

definition calculateOptimalTime :: "ScheduleConfig \<Rightarrow> PlatformType list \<Rightarrow> int \<Rightarrow> int" where
  "calculateOptimalTime cfg ps now =
     (case optimalTimes cfg of
        None \<Rightarrow> now + 60 * 60 * 1000
      | Some ot \<Rightarrow> fst (foldl (considerSlot now) (now + 60 * 60 * 1000, 0) (slotsOf ot ps)))"

text \<open>
  \<open>addToQueue\<close>; \<open>newId\<close> is the identifier that \<open>generateContentId\<close> returns.
\<close>

definition addToQueue ::
  "ContentScheduler \<Rightarrow> string \<Rightarrow> AIContent \<Rightarrow> PlatformType list \<Rightarrow> Priority option \<Rightarrow>
   int option \<Rightarrow> int \<Rightarrow> ContentScheduler \<times> QueuedContent" where
  "addToQueue s newId c ps prio sched now =
     (let queuedContent =
            \<lparr>item_id = newId, itemContent = c, platforms = ps,
             priority = (case prio of Some p \<Rightarrow> p | None \<Rightarrow> Medium),
             status = Pending, testResults = None, publishResults = None, retryCount = None,
             createdAt = now, updatedAt = now,
             scheduledFor = (case sched of
                               Some t \<Rightarrow> t
                             | None \<Rightarrow> calculateOptimalTime (scheduleConfig s) ps now)\<rparr>;
          s1 = s\<lparr>contentQueue := mapSet newId queuedContent (contentQueue s)\<rparr>
      in ((if autoTest (scheduleConfig s) = Some True then testContent s1 queuedContent now else s1),
          queuedContent))"

text \<open>One iteration of the loop of \<open>publishAllReady\<close>, and the loop.\<close>

definition publishOneReady ::
  "Publisher \<Rightarrow> int \<Rightarrow> ContentScheduler \<times> string list \<Rightarrow> QueuedContent \<Rightarrow>
   ContentScheduler \<times> string list" where
  "publishOneReady publisher now acc queuedContent =
     (case acc of (s, errors) \<Rightarrow>
        (let s1 = fst (updateQueuedContent s (item_id queuedContent)
                         (\<lambda>c. c\<lparr>status := Publishing\<rparr>) now);
             s2 = s1\<lparr>publishCalls := publishCalls s1 + 1\<rparr>
         in case publisher (publishCalls s1) (itemContent queuedContent) (platforms queuedContent) of
              Inr results \<Rightarrow>
                (fst (updateQueuedContent s2 (item_id queuedContent)
                        (\<lambda>c. c\<lparr>status := (if allSuccessful results then Published else Failed),
                                publishResults := Some results\<rparr>) now),
                 errors)
            | Inl msg \<Rightarrow>
                (fst (updateQueuedContent s2 (item_id queuedContent)
                        (\<lambda>c. c\<lparr>status := Failed,
                                retryCount := Some (orDefault (retryCount queuedContent) 0 + 1)\<rparr>) now),
                 errors @ [''Failed to publish content '' @ item_id queuedContent @ '': '' @ msg])))"

definition publishAllReady ::
  "Publisher \<Rightarrow> ContentScheduler \<Rightarrow> int \<Rightarrow> ContentScheduler \<times> ScheduleResult" where
  "publishAllReady publisher s now =
     (let readyContent = getReadyContent s now in
      case foldl (publishOneReady publisher now) (s, []) readyContent of
        (s', errors) \<Rightarrow>
          (s', \<lparr>sr_success = (length errors = 0), scheduledContent = readyContent,
                sr_errors = errors\<rparr>))"

definition retryFailedContent :: "ContentScheduler \<Rightarrow> int \<Rightarrow> ContentScheduler" where
  "retryFailedContent s now =
     (let failedContent =
            filter (\<lambda>c. status c = Failed \<and>
                         orDefault (retryCount c) 0 < orDefault (sc_maxRetries (scheduleConfig s)) 3)
              (mapValues (contentQueue s))
      in foldl (\<lambda>s' c. fst (updateQueuedContent s' (item_id c)
                              (\<lambda>q. q\<lparr>status := Pending, scheduledFor := now + 5 * 60 * 1000\<rparr>) now))
           s failedContent)"

definition processScheduledContent :: "Publisher \<Rightarrow> ContentScheduler \<Rightarrow> int \<Rightarrow> ContentScheduler" where
  "processScheduledContent publisher s now =
     (let s1 = (if length (getReadyContent s now) > 0 then fst (publishAllReady publisher s now) else s)
      in if retryFailed (scheduleConfig s1) = Some True then retryFailedContent s1 now else s1)"

section \<open>Bulk publisher (src/unnamed/part_004)\<close>

text \<open>
  The configuration after the constructor has merged its defaults. \<open>concurrency\<close> is a
  number of items (a natural number); the delays are milliseconds.
\<close>

record BulkPublishConfig =
  concurrency :: nat
  delayBetweenPublishes :: int
  bp_autoTest :: bool
  bp_retryFailed :: bool
  bp_maxRetries :: int
  retryDelay :: int

record BulkPublisher =
  config :: BulkPublishConfig
  items :: "(string \<times> BulkPublishItem) list"
  isPublishing :: bool
  bp_publishCalls :: nat

text \<open>
  The result of a bulk publish, without the \<open>averageScore\<close> summary (a floating-point mean
  that no property here reads).
\<close>

record BulkPublishResult =
  bp_success :: bool
  totalItems :: nat
  successfulItems :: nat
  failedItems :: nat
  results :: "(string \<times> PublishResult list) list"
  errors :: "string list"
  totalPublishes :: nat
  successfulPublishes :: nat
  failedPublishes :: nat

text \<open>
  The effects of a bulk publish, in order: \<open>publishItem\<close> is called for an item and calls
  the publisher; the promise of that call settles, with what the publisher's call resolved
  to (\<open>Inr\<close>) or the message it rejected with (\<open>Inl\<close>); \<open>this.delay(ms)\<close> is awaited.
\<close>

datatype BulkEvent = Started string | Settled string "string + PublishResult list" | Delayed int












definition withBulkEvents :: "BulkEvent list \<Rightarrow> 'r \<times> BulkEvent list \<Rightarrow> 'r \<times> BulkEvent list" where
  "withBulkEvents evs x = (case x of (r, tr) \<Rightarrow> (r, evs @ tr))"










section \<open>Waves, in the words of the specification\<close>

text \<open>
  These definitions follow the specification, not the code; the trace of
  \<open>publishAll\<close> is compared with them. \<open>publishedBy publisher k xs\<close> publishes the
  items of \<open>xs\<close> in their order, one call of the publisher each, from the publisher's
  call number \<open>k\<close> on: it pairs the identifier of each item with what the call for its
  content and platforms gives. \<open>wavesOf c xs\<close> partitions \<open>xs\<close> into consecutive waves
  of size \<open>c\<close>, the last one possibly smaller. \<open>interWave d ws\<close> is what a run in waves
  does: every publish of a wave is started, every one has settled before the next wave
  starts, and the delay \<open>d\<close> is slept between two waves but not after the last.
\<close>

fun publishedBy ::
  "Publisher \<Rightarrow> nat \<Rightarrow> BulkPublishItem list \<Rightarrow> (string \<times> (string + PublishResult list)) list" where
  "publishedBy publisher k [] = []"
| "publishedBy publisher k (item # rest) =
     (item_id item, publisher k (itemContent item) (platforms item)) #
     publishedBy publisher (Suc k) rest"





section \<open>Concrete configurations and inputs\<close>

text \<open>The \<open>api\<close> entry of \<open>DEFAULT_RETRY_CONFIGS\<close>, and a handler that uses it.\<close>

definition apiConfig :: RetryConfig where
  "apiConfig =
     \<lparr>maxRetries = 2, baseDelayMs = 2000, maxDelayMs = 8000, exponentialBackoff = True,
      jitterMs = Some 1000, retryableErrors = None, circuitBreakerThreshold = Some 3,
      circuitBreakerResetTimeMs = Some 30000\<rparr>"

definition apiHandler :: RetryHandler where
  "apiHandler = \<lparr>defaultConfig = apiConfig, circuitBreakers = Map.empty\<rparr>"

text \<open>The override \<open>{ exponentialBackoff: false }\<close> of a call: a fixed delay.\<close>

definition fixedDelay :: PartialRetryConfig where
  "fixedDelay =
     \<lparr>p_maxRetries = None, p_baseDelayMs = None, p_maxDelayMs = None,
      p_exponentialBackoff = Some False, p_jitterMs = None, p_retryableErrors = None,
      p_circuitBreakerThreshold = None, p_circuitBreakerResetTimeMs = None\<rparr>"

text \<open>Errors as an HTTP client throws them, with the status in \<open>error.response.status\<close>.\<close>

definition serverError :: JsError where
  "serverError =
     \<lparr>message = Some ''Internal Server Error'', responseStatus = Some 500, statusCode = None,
      retryableError = None\<rparr>"

definition unauthorizedError :: JsError where
  "unauthorizedError =
     \<lparr>message = Some ''Unauthorized'', responseStatus = Some 401, statusCode = None,
      retryableError = None\<rparr>"

definition unauthorizedNetworkError :: JsError where
  "unauthorizedNetworkError =
     \<lparr>message = Some ''Network authentication required by proxy'', responseStatus = Some 401,
      statusCode = None, retryableError = None\<rparr>"

text \<open>
  An environment in which attempt \<open>n\<close> happens at second \<open>n\<close> and \<open>Math.random()\<close> is always
  one half.
\<close>

definition testEnv :: "(int \<Rightarrow> JsError + unit) \<Rightarrow> unit Env" where
  "testEnv f =
     \<lparr>operation = f, callNow = (\<lambda>n. 1000 * n), failNow = (\<lambda>n. 1000 * n + 1),
      mathRandom = (\<lambda>n. 1 / 2), startNow = 0, endNow = (\<lambda>n. 1000 * n + 2)\<rparr>"

text \<open>A short blog post, which passes every check of the tester for \<open>wordpress\<close>.\<close>

definition blogPost :: AIContent where
  "blogPost =
     \<lparr>contentType = ''blog'', title = ''Hello'', content = ''Hello world'', excerpt = None,
      tags = None, images = None, twitterThread = None, otherFields = (\<lambda>f. False)\<rparr>"

definition emptyScheduler :: ContentScheduler where
  "emptyScheduler =
     \<lparr>scheduleConfig = \<lparr>optimalTimes = None, autoTest = Some True, retryFailed = Some True,
                         sc_maxRetries = Some 3\<rparr>,
      contentQueue = [], publishCalls = 0\<rparr>"

text \<open>Three submissions with the priorities low, urgent, medium, in this order.\<close>

definition threeQueued :: ContentScheduler where
  "threeQueued =
     fst (addToQueue
       (fst (addToQueue
         (fst (addToQueue emptyScheduler ''c1'' blogPost [''wordpress''] (Some Low) (Some 1000) 10))
         ''c2'' blogPost [''wordpress''] (Some Urgent) (Some 1000) 20))
       ''c3'' blogPost [''wordpress''] (Some Medium) (Some 1000) 30)"

definition oneQueued :: ContentScheduler where
  "oneQueued =
     fst (addToQueue emptyScheduler ''c1'' blogPost [''wordpress''] (Some High) (Some 1000) 10)"

text \<open>
  A scheduler constructed with a queue of two ready items of medium priority, both
  scheduled for the same time; the first of them was created after the second.
\<close>

definition readyItem :: "string \<Rightarrow> int \<Rightarrow> QueuedContent" where
  "readyItem i t =
     \<lparr>item_id = i, itemContent = blogPost, platforms = [''wordpress''], priority = Medium,
      status = Ready, testResults = None, publishResults = None, retryCount = None,
      createdAt = t, updatedAt = t, scheduledFor = 1000\<rparr>"

definition restoredScheduler :: ContentScheduler where
  "restoredScheduler =
     newContentScheduler (scheduleConfig emptyScheduler)
       (Some [readyItem ''c1'' 200, readyItem ''c2'' 100])"

text \<open>
  A publisher whose every platform reports a failure. \<open>publishToMultiple\<close> does not reject
  in that case: it resolves to results with \<open>success = false\<close>.
\<close>

definition failingPublisher :: Publisher where
  "failingPublisher k c ps = Inr (map (\<lambda>p. \<lparr>pr_success = False, pr_platform = p\<rparr>) ps)"

text \<open>
  A caller's round: the pending items are tested again, then the scheduler's loop body
  runs.
\<close>

definition retestPending :: "ContentScheduler \<Rightarrow> int \<Rightarrow> ContentScheduler" where
  "retestPending s now =
     foldl (\<lambda>s' c. testContent s' c now) s
       (filter (\<lambda>c. status c = Pending) (mapValues (contentQueue s)))"

definition tick :: "Publisher \<Rightarrow> ContentScheduler \<Rightarrow> int \<Rightarrow> ContentScheduler" where
  "tick publisher s now = processScheduledContent publisher (retestPending s now) now"

text \<open>Two slots with the same engagement: Friday 9:00 listed before Tuesday 9:00.\<close>

definition tieConfig :: ScheduleConfig where
  "tieConfig =
     \<lparr>optimalTimes = Some [''wordpress'' \<mapsto>
        [\<lparr>dayOfWeek = 5, hour = 9, engagement = 80\<rparr>,
         \<lparr>dayOfWeek = 2, hour = 9, engagement = 80\<rparr>]],
      autoTest = Some True, retryFailed = Some True, sc_maxRetries = Some 3\<rparr>"





section \<open>Lemmas on the retry loop\<close>

lemmas retry_eval =
  executeWithRetry_def mergeConfig_def breakerFor_def storeBreaker_def tryOperation_def
  execute_def onFailure_def onSuccess_def newCircuitBreaker_def failureResult_def
  withEvents_def isRetryableError_def errorMessageLower_def errorStatus_def toLowerCase_def
  lowerChar_def calculateDelay_def breakerOpenError_def orElse_def apiConfig_def
  serverError_def unauthorizedError_def unauthorizedNetworkError_def testEnv_def
  apiHandler_def

lemma tryOperation_events:
  "tryOperation env cbo n = (cb', out, evs) \<Longrightarrow> evs = [] \<or> evs = [Invoked n]"
  by (auto simp: tryOperation_def split: option.splits prod.splits if_splits)

lemma invocations_append: "invocations (xs @ ys) = invocations xs + invocations ys"
  by (induction xs rule: invocations.induct) auto

lemma withEvents_eq: "withEvents evs (r, cb, tr) = (r, cb, evs @ tr)"
  by (simp add: withEvents_def)

lemma retryLoop_invocations:
  "retryLoop env cfg cbo n le = (r, cb', tr) \<Longrightarrow> invocations tr \<le> nat (maxRetries cfg + 2 - n)"
proof (induction env cfg cbo n le arbitrary: r cb' tr rule: retryLoop.induct)
  case (1 env cfg cbo n le)
  show ?case
  proof (cases "n \<le> maxRetries cfg + 1")
    case False
    with "1.prems" show ?thesis by (simp add: retryLoop.simps)
  next
    case True
    obtain cb1 out evs where t: "tryOperation env cbo n = (cb1, out, evs)"
      by (cases "tryOperation env cbo n") auto
    from tryOperation_events[OF t] have evs: "invocations evs \<le> 1" by auto
    show ?thesis
    proof (cases out)
      case (Inr v)
      with "1.prems" True t evs show ?thesis
        by (auto simp: retryLoop.simps[of env cfg cbo n le] invocations_append)
    next
      case (Inl err)
      show ?thesis
      proof (cases "isRetryableError err cfg \<and> \<not> n > maxRetries cfg")
        case False
        with "1.prems" True t evs Inl show ?thesis
          by (auto simp: retryLoop.simps[of env cfg cbo n le] invocations_append split: if_splits)
      next
        case c: True
        obtain r2 cb2 tr2 where rec: "retryLoop env cfg cb1 (n + 1) (Some err) = (r2, cb2, tr2)"
          by (cases "retryLoop env cfg cb1 (n + 1) (Some err)") auto
        have ih: "invocations tr2 \<le> nat (maxRetries cfg + 2 - (n + 1))"
          using "1.IH"[OF True t[symmetric] _ Inl _ _ rec] c by auto
        from "1.prems" True t Inl c rec
        have "tr = evs @ [Threw n err, Slept (calculateDelay n cfg (mathRandom env n))] @ tr2"
          by (simp add: retryLoop.simps[of env cfg cbo n le] withEvents_eq)
        with ih evs c True show ?thesis by (auto simp: invocations_append)
      qed
    qed
  qed
qed


lemma retryLoop_cases:
  assumes "retryLoop env cfg cbo n le = (r, cb', tr)"
  obtains
    (exit) "\<not> n \<le> maxRetries cfg + 1" "r = failureResult env le n" "cb' = cbo" "tr = []"
  | (ok) cb1 v evs where "n \<le> maxRetries cfg + 1" "tryOperation env cbo n = (cb1, Inr v, evs)"
      "r = \<lparr>success = True, data = Some v, error = None, attempts = n,
             totalTime = endNow env n - startNow env\<rparr>" "cb' = cb1" "tr = evs @ [Returned n]"
  | (stop) cb1 err evs where "n \<le> maxRetries cfg + 1" "tryOperation env cbo n = (cb1, Inl err, evs)"
      "\<not> isRetryableError err cfg \<or> n > maxRetries cfg"
      "r = failureResult env (Some err) n" "cb' = cb1" "tr = evs @ [Threw n err]"
  | (again) cb1 err evs r2 cb2 tr2 where "n \<le> maxRetries cfg + 1"
      "tryOperation env cbo n = (cb1, Inl err, evs)"
      "isRetryableError err cfg" "n \<le> maxRetries cfg"
      "retryLoop env cfg cb1 (n + 1) (Some err) = (r2, cb2, tr2)"
      "r = r2" "cb' = cb2"
      "tr = evs @ [Threw n err, Slept (calculateDelay n cfg (mathRandom env n))] @ tr2"
proof (cases "n \<le> maxRetries cfg + 1")
  case False
  from assms False have "r = failureResult env le n \<and> cb' = cbo \<and> tr = []"
    by (simp add: retryLoop.simps[of env cfg cbo n le])
  with False show ?thesis by (intro exit) auto
next
  case True
  obtain cb1 out evs where t: "tryOperation env cbo n = (cb1, out, evs)"
    by (cases "tryOperation env cbo n") auto
  show ?thesis
  proof (cases out)
    case (Inr v)
    from assms True t Inr
    have "r = \<lparr>success = True, data = Some v, error = None, attempts = n,
             totalTime = endNow env n - startNow env\<rparr> \<and> cb' = cb1 \<and> tr = evs @ [Returned n]"
      by (simp add: retryLoop.simps[of env cfg cbo n le])
    with True t Inr show ?thesis by (intro ok[of cb1 v evs]) auto
  next
    case (Inl err)
    show ?thesis
    proof (cases "isRetryableError err cfg \<and> n \<le> maxRetries cfg")
      case False
      from assms True t Inl False
      have "r = failureResult env (Some err) n \<and> cb' = cb1 \<and> tr = evs @ [Threw n err]"
        by (auto simp: retryLoop.simps[of env cfg cbo n le] split: if_splits)
      with True t Inl False show ?thesis by (intro stop[of cb1 err evs]) auto
    next
      case c: True
      obtain r2 cb2 tr2 where rec: "retryLoop env cfg cb1 (n + 1) (Some err) = (r2, cb2, tr2)"
        by (cases "retryLoop env cfg cb1 (n + 1) (Some err)") auto
      from assms True t Inl c rec
      have "r = r2 \<and> cb' = cb2 \<and>
            tr = evs @ [Threw n err, Slept (calculateDelay n cfg (mathRandom env n))] @ tr2"
        by (simp add: retryLoop.simps[of env cfg cbo n le] withEvents_eq)
      with True t Inl c rec show ?thesis by (intro again[of cb1 err evs r2 cb2 tr2]) auto
    qed
  qed
qed


lemma retriedErrors_skip:
  "(\<And>n e. ev \<noteq> Threw n e) \<Longrightarrow> retriedErrors (ev # evs) = retriedErrors evs"
  by (cases ev; cases evs) auto

lemma retryLoop_retried:
  "retryLoop env cfg cbo n le = (r, cb', tr) \<Longrightarrow>
   list_all (\<lambda>e. isRetryableError e cfg) (retriedErrors tr)"
proof (induction "nat (maxRetries cfg + 2 - n)" arbitrary: n cbo le r cb' tr rule: less_induct)
  case less
  from less.prems show ?case
  proof (cases rule: retryLoop_cases)
    case exit
    then show ?thesis by simp
  next
    case (ok cb1 v evs)
    with tryOperation_events[OF ok(2)] show ?thesis by auto
  next
    case (stop cb1 err evs)
    with tryOperation_events[OF stop(2)] show ?thesis by auto
  next
    case (again cb1 err evs r2 cb2 tr2)
    have "list_all (\<lambda>e. isRetryableError e cfg) (retriedErrors tr2)"
      using less.hyps[OF _ again(5)] again(4) by simp
    with again tryOperation_events[OF again(2)] show ?thesis
      by (auto simp: retriedErrors_skip)
  qed
qed

lemma retryLoop_attempts:
  "retryLoop env cfg cbo n le = (r, cb', tr) \<Longrightarrow> n \<le> maxRetries cfg + 1 \<Longrightarrow>
   n \<le> attempts r \<and> attempts r \<le> maxRetries cfg + 1"
proof (induction "nat (maxRetries cfg + 2 - n)" arbitrary: n cbo le r cb' tr rule: less_induct)
  case less
  from less.prems(1) show ?case
  proof (cases rule: retryLoop_cases)
    case exit
    with less.prems show ?thesis by simp
  next
    case (ok cb1 v evs)
    then show ?thesis by simp
  next
    case (stop cb1 err evs)
    then show ?thesis by (simp add: failureResult_def)
  next
    case (again cb1 err evs r2 cb2 tr2)
    have "n + 1 \<le> attempts r2 \<and> attempts r2 \<le> maxRetries cfg + 1"
      using less.hyps[OF _ again(5)] again(4) by simp
    with again show ?thesis by simp
  qed
qed

lemma delayBefore_other:
  "attemptOf ev = Some m \<Longrightarrow> m \<noteq> k \<Longrightarrow> delayBefore (ev # evs) k acc = delayBefore evs k 0"
  by (cases ev) auto

lemma delayBefore_hit:
  "attemptOf ev = Some k \<Longrightarrow> delayBefore (ev # evs) k acc = Some acc"
  by (cases ev) auto

lemma retryLoop_delayBefore:
  "retryLoop env cfg cbo n le = (r, cb', tr) \<Longrightarrow> n \<le> maxRetries cfg + 1 \<Longrightarrow>
   delayBefore tr k acc =
     (if k = n then Some acc
      else if n < k \<and> k \<le> attempts r
           then Some (calculateDelay (k - 1) cfg (mathRandom env (k - 1)))
           else None)"
proof (induction "nat (maxRetries cfg + 2 - n)" arbitrary: n cbo le r cb' tr acc rule: less_induct)
  case less
  from less.prems(1) show ?case
  proof (cases rule: retryLoop_cases)
    case exit
    with less.prems show ?thesis by simp
  next
    case (ok cb1 v evs)
    with tryOperation_events[OF ok(2)] show ?thesis by auto
  next
    case (stop cb1 err evs)
    with tryOperation_events[OF stop(2)] show ?thesis by (auto simp: failureResult_def)
  next
    case (again cb1 err evs r2 cb2 tr2)
    have ih: "\<And>a. delayBefore tr2 k a =
       (if k = n + 1 then Some a
        else if n + 1 < k \<and> k \<le> attempts r2
             then Some (calculateDelay (k - 1) cfg (mathRandom env (k - 1)))
             else None)"
      using less.hyps[OF _ again(5)] again(4) by simp
    have att: "n + 1 \<le> attempts r2"
      using retryLoop_attempts[OF again(5)] again(4) by simp
    show ?thesis
    proof (cases "k = n")
      case True
      with again tryOperation_events[OF again(2)] show ?thesis by auto
    next
      case False
      with again tryOperation_events[OF again(2)]
      have "delayBefore tr k acc =
            delayBefore tr2 k (calculateDelay n cfg (mathRandom env n))"
        by auto
      with ih False att again(6) show ?thesis by auto
    qed
  qed
qed


lemma retryLoop_step_retry:
  "n \<le> maxRetries cfg \<Longrightarrow> tryOperation env cbo n = (cb1, Inl e, evs) \<Longrightarrow>
   isRetryableError e cfg \<Longrightarrow>
   retryLoop env cfg cbo n le =
     withEvents (evs @ [Threw n e, Slept (calculateDelay n cfg (mathRandom env n))])
       (retryLoop env cfg cb1 (n + 1) (Some e))"
  by (simp add: retryLoop.simps[of env cfg cbo n le])

lemma retryLoop_step_ok:
  "n \<le> maxRetries cfg + 1 \<Longrightarrow> tryOperation env cbo n = (cb1, Inr v, evs) \<Longrightarrow>
   retryLoop env cfg cbo n le =
     (\<lparr>success = True, data = Some v, error = None, attempts = n,
       totalTime = endNow env n - startNow env\<rparr>, cb1, evs @ [Returned n])"
  by (simp add: retryLoop.simps[of env cfg cbo n le])

lemma retryLoop_step_last:
  "n \<le> maxRetries cfg + 1 \<Longrightarrow> maxRetries cfg < n \<Longrightarrow>
   tryOperation env cbo n = (cb1, Inl e, evs) \<Longrightarrow>
   retryLoop env cfg cbo n le = (failureResult env (Some e) n, cb1, evs @ [Threw n e])"
  by (simp add: retryLoop.simps[of env cfg cbo n le])

lemma fst_withEvents: "fst (withEvents evs x) = fst x"
  by (cases x) (simp add: withEvents_def)

lemma tryOperation_undisturbed_fail:
  assumes "undisturbed cbo (k + 1)" "0 \<le> k" "operation env n = Inl e"
  shows "\<exists>cb1. tryOperation env cbo n = (cb1, Inl e, [Invoked n]) \<and> undisturbed cb1 k"
proof (cases cbo)
  case None
  with assms show ?thesis by (simp add: tryOperation_def undisturbed_def)
next
  case (Some cb)
  with assms show ?thesis
    by (simp add: tryOperation_def undisturbed_def execute_def onFailure_def)
qed

lemma tryOperation_undisturbed_last:
  assumes "undisturbed cbo 0" "operation env n = Inl e"
  shows "\<exists>cb1. tryOperation env cbo n = (cb1, Inl e, [Invoked n])"
proof (cases cbo)
  case None
  with assms show ?thesis by (simp add: tryOperation_def undisturbed_def)
next
  case (Some cb)
  with assms show ?thesis
    by (simp add: tryOperation_def undisturbed_def execute_def)
qed

lemma tryOperation_undisturbed_ok:
  assumes "undisturbed cbo k" "operation env n = Inr v"
  shows "\<exists>cb1. tryOperation env cbo n = (cb1, Inr v, [Invoked n])"
proof (cases cbo)
  case None
  with assms show ?thesis by (simp add: tryOperation_def undisturbed_def)
next
  case (Some cb)
  with assms show ?thesis
    by (simp add: tryOperation_def undisturbed_def execute_def)
qed

lemma retryLoop_always_failing:
  assumes "\<forall>j. n \<le> j \<and> j \<le> maxRetries cfg + 1 \<longrightarrow>
             (\<exists>e. operation env j = Inl e \<and> isRetryableError e cfg)"
    and "n \<le> maxRetries cfg + 1"
    and "undisturbed cbo (maxRetries cfg + 1 - n)"
  shows "\<not> success (fst (retryLoop env cfg cbo n le)) \<and>
         attempts (fst (retryLoop env cfg cbo n le)) = maxRetries cfg + 1"
  using assms
proof (induction "nat (maxRetries cfg + 2 - n)" arbitrary: n cbo le rule: less_induct)
  case less
  from less.prems(1,2) obtain e where e: "operation env n = Inl e" "isRetryableError e cfg"
    by auto
  show ?case
  proof (cases "n = maxRetries cfg + 1")
    case True
    with less.prems(3) have "undisturbed cbo 0" by simp
    from tryOperation_undisturbed_last[OF this e(1)] obtain cb1 where
      "tryOperation env cbo n = (cb1, Inl e, [Invoked n])" by blast
    from retryLoop_step_last[OF _ _ this, of cfg le] True show ?thesis
      using True by (simp add: failureResult_def)
  next
    case False
    with less.prems(2) have le': "n \<le> maxRetries cfg" by simp
    have "undisturbed cbo ((maxRetries cfg - n) + 1)"
      using less.prems(3) by (simp add: algebra_simps)
    from tryOperation_undisturbed_fail[OF this _ e(1)] le' obtain cb1 where
      t: "tryOperation env cbo n = (cb1, Inl e, [Invoked n])" and u: "undisturbed cb1 (maxRetries cfg - n)"
      by auto
    have "\<not> success (fst (retryLoop env cfg cb1 (n + 1) (Some e))) \<and>
          attempts (fst (retryLoop env cfg cb1 (n + 1) (Some e))) = maxRetries cfg + 1"
      using less.hyps[of "n + 1" cb1 "Some e"] less.prems(1) le' u by (simp add: algebra_simps)
    then show ?thesis
      by (simp add: retryLoop_step_retry[OF le' t e(2)] fst_withEvents)
  qed
qed

lemma retryLoop_third_time_lucky:
  assumes "maxRetries cfg = 2" "undisturbed cbo 2"
    and "operation env 1 = Inl e1" "isRetryableError e1 cfg"
    and "operation env 2 = Inl e2" "isRetryableError e2 cfg"
    and "operation env 3 = Inr v"
  shows "success (fst (retryLoop env cfg cbo 1 le)) \<and>
         attempts (fst (retryLoop env cfg cbo 1 le)) = 3 \<and>
         data (fst (retryLoop env cfg cbo 1 le)) = Some v"
proof -
  from tryOperation_undisturbed_fail[of cbo 1 env 1 e1] assms obtain cb1 where
    t1: "tryOperation env cbo 1 = (cb1, Inl e1, [Invoked 1])" and u1: "undisturbed cb1 1"
    by auto
  from tryOperation_undisturbed_fail[of cb1 0 env 2 e2] assms u1 obtain cb2 where
    t2: "tryOperation env cb1 2 = (cb2, Inl e2, [Invoked 2])" and u2: "undisturbed cb2 0"
    by auto
  from tryOperation_undisturbed_ok[OF u2 assms(7)] obtain cb3 where
    t3: "tryOperation env cb2 3 = (cb3, Inr v, [Invoked 3])" by blast
  have s1: "retryLoop env cfg cbo 1 le =
      withEvents ([Invoked 1] @ [Threw 1 e1, Slept (calculateDelay 1 cfg (mathRandom env 1))])
        (retryLoop env cfg cb1 (1 + 1) (Some e1))"
    using assms(1,4) t1 by (intro retryLoop_step_retry) auto
  have s2: "retryLoop env cfg cb1 2 (Some e1) =
      withEvents ([Invoked 2] @ [Threw 2 e2, Slept (calculateDelay 2 cfg (mathRandom env 2))])
        (retryLoop env cfg cb2 (2 + 1) (Some e2))"
    using assms(1,6) t2 by (intro retryLoop_step_retry) auto
  have s3: "retryLoop env cfg cb2 3 (Some e2) =
      (\<lparr>success = True, data = Some v, error = None, attempts = 3,
        totalTime = endNow env 3 - startNow env\<rparr>, cb3, [Invoked 3] @ [Returned 3])"
    using assms(1) t3 by (intro retryLoop_step_ok) auto
  show ?thesis by (simp add: s1 s2 s3 fst_withEvents)
qed

section \<open>The circuit breaker\<close>

lemma half_open_failure:
  "state cb = HALF_OPEN \<Longrightarrow>
   state (fst (execute cb t tf (Inl e))) =
     (if threshold cb \<le> failureCount cb + 1 then OPEN else HALF_OPEN)"
  by (simp add: execute_def onFailure_def)

text \<open>
  Claim C1 says that any single failed call in the half_open state opens the breaker again,
  also after one or two half-open calls have succeeded. \<open>onFailure\<close> opens the breaker
  only when \<open>failureCount\<close> reaches the threshold, and a success sets \<open>failureCount\<close> to 0.
  On a breaker with threshold 5 and a reset time of 60 s, five failures open it. A call
  65 s later is made in the half_open state; when it fails, the breaker is open again
  (the failure count of the open breaker is still at the threshold). When it succeeds
  instead, the breaker stays half_open, and a failure after that success leaves it
  half_open, where the claim has it open.
\<close>

theorem half_open_failure_after_success_stays_half_open:
  "state (executeAll (newCircuitBreaker (Some 5) (Some 60000))
      [(1000, 1001, Inl serverError :: JsError + unit), (2000, 2001, Inl serverError),
       (3000, 3001, Inl serverError), (4000, 4001, Inl serverError),
       (5000, 5001, Inl serverError)]) = OPEN \<and>
   state (executeAll (newCircuitBreaker (Some 5) (Some 60000))
      [(1000, 1001, Inl serverError :: JsError + unit), (2000, 2001, Inl serverError),
       (3000, 3001, Inl serverError), (4000, 4001, Inl serverError),
       (5000, 5001, Inl serverError), (70000, 70001, Inl serverError)]) = OPEN \<and>
   snd (snd (execute (executeAll (newCircuitBreaker (Some 5) (Some 60000))
      [(1000, 1001, Inl serverError :: JsError + unit), (2000, 2001, Inl serverError),
       (3000, 3001, Inl serverError), (4000, 4001, Inl serverError),
       (5000, 5001, Inl serverError)]) 70000 70001 (Inl serverError :: JsError + unit)))
     = Some HALF_OPEN \<and>
   state (executeAll (newCircuitBreaker (Some 5) (Some 60000))
      [(1000, 1001, Inl serverError :: JsError + unit), (2000, 2001, Inl serverError),
       (3000, 3001, Inl serverError), (4000, 4001, Inl serverError),
       (5000, 5001, Inl serverError), (70000, 70001, Inr ())]) = HALF_OPEN \<and>
   state (executeAll (newCircuitBreaker (Some 5) (Some 60000))
      [(1000, 1001, Inl serverError :: JsError + unit), (2000, 2001, Inl serverError),
       (3000, 3001, Inl serverError), (4000, 4001, Inl serverError),
       (5000, 5001, Inl serverError), (70000, 70001, Inr ()),
       (71000, 71001, Inl serverError)]) = HALF_OPEN"
  by (simp add: newCircuitBreaker_def execute_def onFailure_def onSuccess_def)

lemma executeAll_rejected:
  "state cb = OPEN \<Longrightarrow>
   list_all (\<lambda>call. fst call - lastFailureTime cb < resetTimeMs cb) calls \<Longrightarrow>
   executeAll cb calls = cb"
  by (induction calls) (auto simp: execute_def)

text \<open>
  Claim C3: while the breaker is open and less than \<open>resetTimeMs\<close> has passed since
  \<open>lastFailureTime\<close>, a call is rejected with the breaker-open error, the operation is not
  invoked and the breaker is unchanged, so that every call of a run of calls made in
  that window is rejected. A call made once \<open>resetTimeMs\<close> has passed moves the breaker
  to half_open and invokes the operation in that state; it passes on what the operation
  returns or throws. When the operation returns, the breaker is left half_open with one
  success counted and the failure count cleared; when it throws, the failure is counted
  and the breaker is open again if the count has reached the threshold, half_open
  otherwise.
\<close>

theorem open_breaker_window:
  assumes "state cb = OPEN"
  shows "(t - lastFailureTime cb < resetTimeMs cb \<longrightarrow>
            execute cb t tf outcome = (cb, Inl breakerOpenError, None)) \<and>
         (\<forall>calls :: (int \<times> int \<times> (JsError + 'a)) list.
            list_all (\<lambda>call. fst call - lastFailureTime cb < resetTimeMs cb) calls \<longrightarrow>
            executeAll cb calls = cb) \<and>
         (resetTimeMs cb \<le> t - lastFailureTime cb \<longrightarrow>
            snd (execute cb t tf outcome) = (outcome, Some HALF_OPEN) \<and>
            fst (execute cb t tf outcome) =
              (case outcome of
                 Inr v \<Rightarrow> cb\<lparr>state := HALF_OPEN, successCount := 1, failureCount := 0\<rparr>
               | Inl e \<Rightarrow>
                   cb\<lparr>state := (if threshold cb \<le> failureCount cb + 1 then OPEN else HALF_OPEN),
                      successCount := 0, failureCount := failureCount cb + 1,
                      lastFailureTime := tf\<rparr>))"
proof -
  have 1: "t - lastFailureTime cb < resetTimeMs cb \<longrightarrow>
            execute cb t tf outcome = (cb, Inl breakerOpenError, None)"
    using assms by (simp add: execute_def)
  have 2: "\<forall>calls :: (int \<times> int \<times> (JsError + 'a)) list.
            list_all (\<lambda>call. fst call - lastFailureTime cb < resetTimeMs cb) calls \<longrightarrow>
            executeAll cb calls = cb"
    using executeAll_rejected[OF assms] by blast
  have 3: "resetTimeMs cb \<le> t - lastFailureTime cb \<longrightarrow>
            snd (execute cb t tf outcome) = (outcome, Some HALF_OPEN) \<and>
            fst (execute cb t tf outcome) =
              (case outcome of
                 Inr v \<Rightarrow> cb\<lparr>state := HALF_OPEN, successCount := 1, failureCount := 0\<rparr>
               | Inl e \<Rightarrow>
                   cb\<lparr>state := (if threshold cb \<le> failureCount cb + 1 then OPEN else HALF_OPEN),
                      successCount := 0, failureCount := failureCount cb + 1,
                      lastFailureTime := tf\<rparr>)"
    using assms by (cases outcome) (auto simp: execute_def onSuccess_def onFailure_def)
  from 1 2 3 show ?thesis by blast
qed

theorem open_breaker_window_witness:
  "execute \<lparr>state = OPEN, failureCount = 5, lastFailureTime = 5001, successCount = 0,
            threshold = 5, resetTimeMs = 60000\<rparr> 65000 65001 (Inr (7::nat))
     = (\<lparr>state = OPEN, failureCount = 5, lastFailureTime = 5001, successCount = 0,
            threshold = 5, resetTimeMs = 60000\<rparr>, Inl breakerOpenError, None) \<and>
   execute \<lparr>state = OPEN, failureCount = 5, lastFailureTime = 5001, successCount = 0,
            threshold = 5, resetTimeMs = 60000\<rparr> 65001 65002 (Inr (7::nat))
     = (\<lparr>state = HALF_OPEN, failureCount = 0, lastFailureTime = 5001, successCount = 1,
            threshold = 5, resetTimeMs = 60000\<rparr>, Inr 7, Some HALF_OPEN) \<and>
   execute \<lparr>state = OPEN, failureCount = 5, lastFailureTime = 5001, successCount = 0,
            threshold = 5, resetTimeMs = 60000\<rparr> 65001 65002 (Inl serverError :: JsError + nat)
     = (\<lparr>state = OPEN, failureCount = 6, lastFailureTime = 65002, successCount = 0,
            threshold = 5, resetTimeMs = 60000\<rparr>, Inl serverError, Some HALF_OPEN)"
proof -
  let ?cb = "\<lparr>state = OPEN, failureCount = 5, lastFailureTime = 5001, successCount = 0,
              threshold = 5, resetTimeMs = 60000\<rparr>"
  have a: "execute ?cb 65000 65001 (Inr (7::nat)) = (?cb, Inl breakerOpenError, None)"
    using conjunct1[OF open_breaker_window[of ?cb 65000 65001 "Inr (7::nat)"]] by simp
  have b: "execute ?cb 65001 65002 (Inr (7::nat))
     = (\<lparr>state = HALF_OPEN, failureCount = 0, lastFailureTime = 5001, successCount = 1,
            threshold = 5, resetTimeMs = 60000\<rparr>, Inr 7, Some HALF_OPEN)"
    using conjunct2[OF conjunct2[OF open_breaker_window[of ?cb 65001 65002 "Inr (7::nat)"]]]
    by (simp add: prod_eq_iff)
  have c: "execute ?cb 65001 65002 (Inl serverError :: JsError + nat)
     = (\<lparr>state = OPEN, failureCount = 6, lastFailureTime = 65002, successCount = 0,
            threshold = 5, resetTimeMs = 60000\<rparr>, Inl serverError, Some HALF_OPEN)"
    using conjunct2[OF conjunct2[OF
          open_breaker_window[of ?cb 65001 65002 "Inl serverError :: JsError + nat"]]]
    by (simp add: prod_eq_iff)
  from a b c show ?thesis by simp
qed

section \<open>Retries\<close>

text \<open>
  Claim C2, as stated, fails when a circuit breaker stands between the call and the
  operation. With \<open>maxRetries = 2\<close>, the key \<open>wordpress\<close> and a breaker threshold
  of 2, an operation that fails retryably on attempts 1 and 2 and would return on attempt 3
  is invoked twice only, and the call returns \<open>success = false\<close>; with a threshold of 1,
  an operation that always fails retryably gives \<open>attempts = 2\<close>, not
  \<open>maxRetries + 1 = 3\<close>.
\<close>

theorem retry_breaker_counterexample:
  "isRetryableError serverError (apiConfig\<lparr>circuitBreakerThreshold := Some 2\<rparr>) \<and>
   RetryResult.success (fst (snd (executeWithRetry
       \<lparr>defaultConfig = apiConfig\<lparr>circuitBreakerThreshold := Some 2\<rparr>, circuitBreakers = Map.empty\<rparr>
       (testEnv (\<lambda>n. if n = 3 then Inr () else Inl serverError)) None (Some ''wordpress'')))) = False \<and>
   invocations (snd (snd (executeWithRetry
       \<lparr>defaultConfig = apiConfig\<lparr>circuitBreakerThreshold := Some 2\<rparr>, circuitBreakers = Map.empty\<rparr>
       (testEnv (\<lambda>n. if n = 3 then Inr () else Inl serverError)) None (Some ''wordpress'')))) = 2 \<and>
   attempts (fst (snd (executeWithRetry
       \<lparr>defaultConfig = apiConfig\<lparr>circuitBreakerThreshold := Some 1\<rparr>, circuitBreakers = Map.empty\<rparr>
       (testEnv (\<lambda>n. Inl serverError)) None (Some ''wordpress'')))) = 2"
  by (simp add: retry_eval retryLoop.simps)

text \<open>
  Claim C2, amended: \<open>executeWithRetry\<close> never invokes the operation more than
  \<open>maxRetries + 1\<close> times, and it goes on to another attempt only after an error that
  \<open>isRetryableError\<close> classifies as retryable; the number of attempts it reports lies
  between 1 and \<open>maxRetries + 1\<close>. When no breaker disturbs the call (no key is given, or
  the breaker is closed and \<open>maxRetries\<close> more failures do not reach its threshold): with
  \<open>maxRetries = 2\<close>, an operation that fails retryably on attempts 1 and 2 and returns
  on attempt 3 gives \<open>success = true\<close> and \<open>attempts = 3\<close>, and an operation that
  always fails retryably gives \<open>success = false\<close> and \<open>attempts = maxRetries + 1\<close>.
\<close>

theorem executeWithRetry_retries:
  assumes "executeWithRetry h env overrides key = (h', r, tr)"
    and "cfg = mergeConfig (defaultConfig h) overrides"
  shows "invocations tr \<le> nat (maxRetries cfg + 1) \<and>
         list_all (\<lambda>e. isRetryableError e cfg) (retriedErrors tr) \<and>
         (0 \<le> maxRetries cfg \<longrightarrow> 1 \<le> attempts r \<and> attempts r \<le> maxRetries cfg + 1) \<and>
         (maxRetries cfg = 2 \<and> undisturbed (breakerFor h cfg key) 2 \<and>
          (\<exists>e1 e2 v. operation env 1 = Inl e1 \<and> isRetryableError e1 cfg \<and>
                      operation env 2 = Inl e2 \<and> isRetryableError e2 cfg \<and>
                      operation env 3 = Inr v)
          \<longrightarrow> RetryResult.success r \<and> attempts r = 3) \<and>
         (0 \<le> maxRetries cfg \<and> undisturbed (breakerFor h cfg key) (maxRetries cfg) \<and>
          (\<forall>j. 1 \<le> j \<and> j \<le> maxRetries cfg + 1 \<longrightarrow>
                (\<exists>e. operation env j = Inl e \<and> isRetryableError e cfg))
          \<longrightarrow> \<not> RetryResult.success r \<and> attempts r = maxRetries cfg + 1)"
proof -
  obtain cb' where loop: "retryLoop env cfg (breakerFor h cfg key) 1 None = (r, cb', tr)"
    using assms by (auto simp: executeWithRetry_def Let_def split: prod.splits)
  have r: "r = fst (retryLoop env cfg (breakerFor h cfg key) 1 None)"
    by (simp add: loop)
  have a: "invocations tr \<le> nat (maxRetries cfg + 1)"
    using retryLoop_invocations[OF loop] by simp
  have b: "list_all (\<lambda>e. isRetryableError e cfg) (retriedErrors tr)"
    by (rule retryLoop_retried[OF loop])
  have c: "0 \<le> maxRetries cfg \<longrightarrow> 1 \<le> attempts r \<and> attempts r \<le> maxRetries cfg + 1"
    using retryLoop_attempts[OF loop] by simp
  have d: "maxRetries cfg = 2 \<and> undisturbed (breakerFor h cfg key) 2 \<and>
          (\<exists>e1 e2 v. operation env 1 = Inl e1 \<and> isRetryableError e1 cfg \<and>
                      operation env 2 = Inl e2 \<and> isRetryableError e2 cfg \<and>
                      operation env 3 = Inr v)
          \<longrightarrow> RetryResult.success r \<and> attempts r = 3"
    unfolding r using retryLoop_third_time_lucky[of cfg "breakerFor h cfg key" env] by blast
  have e: "0 \<le> maxRetries cfg \<and> undisturbed (breakerFor h cfg key) (maxRetries cfg) \<and>
          (\<forall>j. 1 \<le> j \<and> j \<le> maxRetries cfg + 1 \<longrightarrow>
                (\<exists>e. operation env j = Inl e \<and> isRetryableError e cfg))
          \<longrightarrow> \<not> RetryResult.success r \<and> attempts r = maxRetries cfg + 1"
    unfolding r using retryLoop_always_failing[of 1 cfg env "breakerFor h cfg key" None] by simp
  from a b c d e show ?thesis by blast
qed

theorem executeWithRetry_retries_witness:
  "RetryResult.success (fst (snd (executeWithRetry apiHandler
      (testEnv (\<lambda>n. if n = 3 then Inr () else Inl serverError)) None None))) \<and>
   attempts (fst (snd (executeWithRetry apiHandler
      (testEnv (\<lambda>n. if n = 3 then Inr () else Inl serverError)) None None))) = 3 \<and>
   \<not> RetryResult.success (fst (snd (executeWithRetry apiHandler
      (testEnv (\<lambda>n. Inl serverError)) None (Some ''wordpress'')))) \<and>
   attempts (fst (snd (executeWithRetry apiHandler
      (testEnv (\<lambda>n. Inl serverError)) None (Some ''wordpress'')))) = 3"
proof -
  let ?run1 = "executeWithRetry apiHandler
      (testEnv (\<lambda>n. if n = 3 then Inr () else Inl serverError)) None None"
  let ?run2 = "executeWithRetry apiHandler (testEnv (\<lambda>n. Inl serverError)) None (Some ''wordpress'')"
  have cfg: "apiConfig = mergeConfig (defaultConfig apiHandler) None"
    by (simp add: mergeConfig_def apiHandler_def)
  have retryable: "isRetryableError serverError apiConfig"
    by (simp add: isRetryableError_def serverError_def errorMessageLower_def errorStatus_def
        toLowerCase_def lowerChar_def)
  have m: "maxRetries apiConfig = 2" by (simp add: apiConfig_def)
  have u1: "undisturbed (breakerFor apiHandler apiConfig None) 2"
    by (simp add: undisturbed_def breakerFor_def)
  have u2: "undisturbed (breakerFor apiHandler apiConfig (Some ''wordpress'')) 2"
    by (simp add: undisturbed_def breakerFor_def apiHandler_def newCircuitBreaker_def apiConfig_def)
  have o1: "\<exists>e1 e2 v. operation (testEnv (\<lambda>n. if n = 3 then Inr () else Inl serverError)) 1 = Inl e1 \<and>
       isRetryableError e1 apiConfig \<and>
       operation (testEnv (\<lambda>n. if n = 3 then Inr () else Inl serverError)) 2 = Inl e2 \<and>
       isRetryableError e2 apiConfig \<and>
       operation (testEnv (\<lambda>n. if n = 3 then Inr () else Inl serverError)) 3 = Inr v"
    using retryable by (simp add: testEnv_def)
  have o2: "\<forall>j. 1 \<le> j \<and> j \<le> maxRetries apiConfig + 1 \<longrightarrow>
       (\<exists>e. operation (testEnv (\<lambda>n. Inl serverError)) j = Inl e \<and> isRetryableError e apiConfig)"
    using retryable by (simp add: testEnv_def)
  from executeWithRetry_retries[of apiHandler _ None None "fst ?run1" "fst (snd ?run1)"
      "snd (snd ?run1)" apiConfig, OF _ cfg] m u1 o1
  have "RetryResult.success (fst (snd ?run1)) \<and> attempts (fst (snd ?run1)) = 3"
    by simp
  moreover
  from executeWithRetry_retries[of apiHandler _ None "Some ''wordpress''" "fst ?run2"
      "fst (snd ?run2)" "snd (snd ?run2)" apiConfig, OF _ cfg] m u2 o2
  have "\<not> RetryResult.success (fst (snd ?run2)) \<and> attempts (fst (snd ?run2)) = 3"
    by simp
  ultimately show ?thesis by simp
qed

text \<open>
  Claim C7, as stated, has the delay without exponential backoff equal to the base delay
  plus the jitter. \<open>calculateDelay\<close> adds \<open>Math.random() * jitterMs\<close> in both cases.
  With the \<open>api\<close> policy (base delay 2000 ms, jitter 1000 ms, maximum 8000 ms), exponential
  backoff switched off for the call and \<open>Math.random()\<close> returning one half, the time
  slept before attempt 2 is 2500 ms, not 2000 + 1000 = 3000 ms.
\<close>

theorem fixed_delay_random_jitter_counterexample:
  "exponentialBackoff (mergeConfig (defaultConfig apiHandler) (Some fixedDelay)) = False \<and>
   baseDelayMs (mergeConfig (defaultConfig apiHandler) (Some fixedDelay)) = 2000 \<and>
   jitterMs (mergeConfig (defaultConfig apiHandler) (Some fixedDelay)) = Some 1000 \<and>
   maxDelayMs (mergeConfig (defaultConfig apiHandler) (Some fixedDelay)) = 8000 \<and>
   mathRandom (testEnv (\<lambda>n. Inl serverError)) 1 = 1 / 2 \<and>
   delayBefore (snd (snd (executeWithRetry apiHandler (testEnv (\<lambda>n. Inl serverError))
                            (Some fixedDelay) None))) 2 0 = Some 2500"
  by (simp add: retry_eval fixedDelay_def retryLoop.simps)

text \<open>
  Claim C7, amended: attempt 1 is made without any delay. For every attempt \<open>n \<ge> 2\<close> that takes
  place, the time slept before it is \<open>calculateDelay (n - 1)\<close>, which equals
  \<open>min (d + j) maxDelayMs\<close>, where \<open>d\<close> is \<open>min (baseDelayMs * 2 ^ (n - 2)) maxDelayMs\<close> with
  exponential backoff and \<open>baseDelayMs\<close> without, and \<open>j\<close> is the jitter
  \<open>Math.random() * jitterMs\<close> (0 without \<open>jitterMs\<close>), which lies in \<open>[0, jitterMs]\<close>. The
  delay never exceeds \<open>maxDelayMs\<close>.
\<close>

theorem backoff_delay:
  assumes "executeWithRetry h env overrides key = (h', r, tr)"
    and "cfg = mergeConfig (defaultConfig h) overrides"
    and "0 \<le> maxRetries cfg"
  shows "delayBefore tr 1 0 = Some 0 \<and>
         (\<forall>n. 2 \<le> n \<and> n \<le> attempts r \<longrightarrow>
            delayBefore tr n 0 = Some (calculateDelay (n - 1) cfg (mathRandom env (n - 1)))) \<and>
         (\<forall>n x. 2 \<le> n \<longrightarrow>
            calculateDelay (n - 1) cfg x =
              min ((if exponentialBackoff cfg
                    then min (baseDelayMs cfg * 2 ^ nat (n - 2)) (maxDelayMs cfg)
                    else baseDelayMs cfg)
                   + (case jitterMs cfg of Some j \<Rightarrow> x * j | None \<Rightarrow> 0))
                  (maxDelayMs cfg) \<and>
            calculateDelay (n - 1) cfg x \<le> maxDelayMs cfg \<and>
            (0 \<le> x \<and> x < 1 \<longrightarrow>
               (case jitterMs cfg of
                  Some j \<Rightarrow> 0 \<le> j \<longrightarrow> 0 \<le> x * j \<and> x * j \<le> j
                | None \<Rightarrow> True)))"
proof -
  obtain cb' where loop: "retryLoop env cfg (breakerFor h cfg key) 1 None = (r, cb', tr)"
    using assms by (auto simp: executeWithRetry_def Let_def split: prod.splits)
  have d: "\<And>k. delayBefore tr k 0 =
     (if k = 1 then Some 0
      else if 1 < k \<and> k \<le> attempts r
           then Some (calculateDelay (k - 1) cfg (mathRandom env (k - 1)))
           else None)"
    using retryLoop_delayBefore[OF loop] assms(3) by simp
  have f: "\<And>n x. 2 \<le> n \<Longrightarrow>
            calculateDelay (n - 1) cfg x =
              min ((if exponentialBackoff cfg
                    then min (baseDelayMs cfg * 2 ^ nat (n - 2)) (maxDelayMs cfg)
                    else baseDelayMs cfg)
                   + (case jitterMs cfg of Some j \<Rightarrow> x * j | None \<Rightarrow> 0))
                  (maxDelayMs cfg)"
  proof -
    fix n :: int and x :: real
    assume n: "2 \<le> n"
    then have p: "(2::real) powi (n - 2) = 2 ^ nat (n - 2)"
      by (simp add: power_int_def)
    show "calculateDelay (n - 1) cfg x =
              min ((if exponentialBackoff cfg
                    then min (baseDelayMs cfg * 2 ^ nat (n - 2)) (maxDelayMs cfg)
                    else baseDelayMs cfg)
                   + (case jitterMs cfg of Some j \<Rightarrow> x * j | None \<Rightarrow> 0))
                  (maxDelayMs cfg)"
      by (auto simp: calculateDelay_def Let_def p split: option.splits)
  qed
  have g: "\<And>n x. calculateDelay n cfg x \<le> maxDelayMs cfg"
    by (simp add: calculateDelay_def Let_def)
  have j: "\<And>x. 0 \<le> x \<and> x < 1 \<longrightarrow>
               (case jitterMs cfg of
                  Some j \<Rightarrow> 0 \<le> j \<longrightarrow> 0 \<le> x * j \<and> x * j \<le> j
                | None \<Rightarrow> True)"
    by (auto split: option.splits simp: mult_left_le_one_le)
  show ?thesis using d f g j by simp
qed

theorem backoff_delay_witness:
  "delayBefore (snd (snd (executeWithRetry apiHandler (testEnv (\<lambda>n. Inl serverError)) None None))) 1 0
     = Some 0 \<and>
   delayBefore (snd (snd (executeWithRetry apiHandler (testEnv (\<lambda>n. Inl serverError)) None None))) 2 0
     = Some 2500 \<and>
   delayBefore (snd (snd (executeWithRetry apiHandler (testEnv (\<lambda>n. Inl serverError)) None None))) 3 0
     = Some 4500 \<and>
   calculateDelay 2 apiConfig (1 / 2) = min (min (2000 * 2 ^ 1) 8000 + 1 / 2 * 1000) 8000"
proof -
  let ?run = "executeWithRetry apiHandler (testEnv (\<lambda>n. Inl serverError)) None None"
  have cfg: "apiConfig = mergeConfig (defaultConfig apiHandler) None"
    by (simp add: mergeConfig_def apiHandler_def)
  have m: "0 \<le> maxRetries apiConfig" by (simp add: apiConfig_def)
  have att: "attempts (fst (snd ?run)) = 3"
    by (simp add: retry_eval retryLoop.simps)
  have rnd: "mathRandom (testEnv (\<lambda>n. Inl serverError)) = (\<lambda>n. 1 / 2)"
    by (simp add: testEnv_def)
  have d1: "calculateDelay 1 apiConfig (1 / 2) = 2500"
    by (simp add: calculateDelay_def apiConfig_def)
  have d2: "calculateDelay 2 apiConfig (1 / 2) = 4500"
    by (simp add: calculateDelay_def apiConfig_def)
  note t = backoff_delay[of apiHandler "testEnv (\<lambda>n. Inl serverError)" None None
      "fst ?run" "fst (snd ?run)" "snd (snd ?run)" apiConfig, OF _ cfg m, simplified]
  from t have a: "delayBefore (snd (snd ?run)) 1 0 = Some 0" by blast
  from t have b: "\<And>n. 2 \<le> n \<and> n \<le> attempts (fst (snd ?run)) \<longrightarrow>
      delayBefore (snd (snd ?run)) n 0 =
        Some (calculateDelay (n - 1) apiConfig (mathRandom (testEnv (\<lambda>n. Inl serverError)) (n - 1)))"
    by blast
  from t have c: "\<And>n x. 2 \<le> n \<longrightarrow>
      calculateDelay (n - 1) apiConfig x =
        min ((if exponentialBackoff apiConfig
              then min (baseDelayMs apiConfig * 2 ^ nat (n - 2)) (maxDelayMs apiConfig)
              else baseDelayMs apiConfig)
             + (case jitterMs apiConfig of Some j \<Rightarrow> x * j | None \<Rightarrow> 0))
            (maxDelayMs apiConfig)"
    by blast
  from b[of 2] b[of 3] att rnd d1 d2
  have "delayBefore (snd (snd ?run)) 2 0 = Some 2500 \<and> delayBefore (snd (snd ?run)) 3 0 = Some 4500"
    by simp
  moreover from c[of 3 "1 / 2"]
  have "calculateDelay 2 apiConfig (1 / 2) = min (min (2000 * 2 ^ 1) 8000 + 1 / 2 * 1000) 8000"
    by (simp add: apiConfig_def)
  ultimately show ?thesis using a by simp
qed

section \<open>Error classification\<close>

lemma isRetryableError_plain:
  "isRetryableError e cfg =
     (case retryableError e of
        Some (t, b) \<Rightarrow> b
      | None \<Rightarrow>
          list_ex (str_includes (errorMessageLower e))
            [''network'', ''timeout'', ''connection'', ''econnreset'', ''enotfound''] \<or>
          (case errorStatus e of Some s \<Rightarrow> s \<in> {408, 429, 500, 502, 503, 504} | None \<Rightarrow> False) \<or>
          (case retryableErrors cfg of
             Some res \<Rightarrow> list_ex (\<lambda>r. str_includes (errorMessageLower e) (toLowerCase r)) res
           | None \<Rightarrow> False))"
  by (auto simp: isRetryableError_def Let_def split: option.splits)

lemma retriedErrors_retryLoop_mem:
  "retryLoop env cfg cbo n le = (r, cb', tr) \<Longrightarrow> e \<in> set (retriedErrors tr) \<Longrightarrow>
   isRetryableError e cfg"
  using retryLoop_retried[of env cfg cbo n le r cb' tr] by (simp add: list_all_iff)

text \<open>
  Claim C4, as stated, fails: \<open>isRetryableError\<close> looks at the message before the status.
  An error with status 401 whose message contains the word network is classified
  authentication by \<open>categorizeError\<close>, and \<open>executeWithRetry\<close> retries it until the
  attempts are used up.
\<close>

theorem unauthorized_retried_counterexample:
  "categorizeError unauthorizedNetworkError = AUTHENTICATION \<and>
   attempts (fst (snd (executeWithRetry apiHandler
      (testEnv (\<lambda>n. Inl unauthorizedNetworkError)) None None))) = 3 \<and>
   invocations (snd (snd (executeWithRetry apiHandler
      (testEnv (\<lambda>n. Inl unauthorizedNetworkError)) None None))) = 3"
  by (simp add: retry_eval retryLoop.simps categorizeError_def)

text \<open>
  Claim C4, amended: \<open>categorizeError\<close> classifies the status 401 or 403 as authentication,
  429 as rate_limit and every other 4xx status as client. \<open>executeWithRetry\<close> does not
  retry a failed operation with a 4xx status other than 408 and 429, unless the error is
  a \<open>RetryableError\<close> whose \<open>isRetryable\<close> flag is set, or it is another error whose
  lower-cased message contains network, timeout, connection, econnreset or enotfound, or
  one of the policy's custom retryable substrings.
\<close>

theorem client_errors_not_retried:
  assumes "errorStatus e = Some s" and "400 \<le> s" and "s < 500"
  shows "categorizeError e =
           (if s = 401 \<or> s = 403 then AUTHENTICATION else if s = 429 then RATE_LIMIT else CLIENT) \<and>
         (s \<noteq> 408 \<and> s \<noteq> 429 \<longrightarrow>
            isRetryableError e cfg =
              (case retryableError e of
                 Some (t, b) \<Rightarrow> b
               | None \<Rightarrow>
                   list_ex (str_includes (errorMessageLower e))
                     [''network'', ''timeout'', ''connection'', ''econnreset'', ''enotfound''] \<or>
                   (case retryableErrors cfg of
                      Some res \<Rightarrow>
                        list_ex (\<lambda>r. str_includes (errorMessageLower e) (toLowerCase r)) res
                    | None \<Rightarrow> False))) \<and>
         (\<not> isRetryableError e cfg \<longrightarrow>
            (\<forall>h (env :: 'a Env) overrides key.
               cfg = mergeConfig (defaultConfig h) overrides \<longrightarrow>
               e \<notin> set (retriedErrors (snd (snd (executeWithRetry h env overrides key))))))"
proof -
  have a: "categorizeError e =
           (if s = 401 \<or> s = 403 then AUTHENTICATION else if s = 429 then RATE_LIMIT else CLIENT)"
    using assms by (simp add: categorizeError_def)
  have b: "s \<noteq> 408 \<and> s \<noteq> 429 \<longrightarrow>
            isRetryableError e cfg =
              (case retryableError e of
                 Some (t, b) \<Rightarrow> b
               | None \<Rightarrow>
                   list_ex (str_includes (errorMessageLower e))
                     [''network'', ''timeout'', ''connection'', ''econnreset'', ''enotfound''] \<or>
                   (case retryableErrors cfg of
                      Some res \<Rightarrow>
                        list_ex (\<lambda>r. str_includes (errorMessageLower e) (toLowerCase r)) res
                    | None \<Rightarrow> False))"
    using assms by (auto simp: isRetryableError_plain split: option.splits)
  have c: "\<not> isRetryableError e cfg \<longrightarrow>
            (\<forall>h (env :: 'a Env) overrides key.
               cfg = mergeConfig (defaultConfig h) overrides \<longrightarrow>
               e \<notin> set (retriedErrors (snd (snd (executeWithRetry h env overrides key)))))"
  proof (intro impI allI notI)
    fix h and env :: "'a Env" and overrides key
    assume n: "\<not> isRetryableError e cfg" and cfg: "cfg = mergeConfig (defaultConfig h) overrides"
      and m: "e \<in> set (retriedErrors (snd (snd (executeWithRetry h env overrides key))))"
    obtain r cb' tr where loop:
      "retryLoop env cfg (breakerFor h cfg key) 1 None = (r, cb', tr)"
      by (cases "retryLoop env cfg (breakerFor h cfg key) 1 None") auto
    then have "snd (snd (executeWithRetry h env overrides key)) = tr"
      using cfg by (simp add: executeWithRetry_def)
    with m retriedErrors_retryLoop_mem[OF loop] n show False by simp
  qed
  from a b c show ?thesis by blast
qed

theorem client_errors_not_retried_witness:
  "categorizeError unauthorizedError = AUTHENTICATION \<and>
   \<not> isRetryableError unauthorizedError apiConfig \<and>
   unauthorizedError \<notin> set (retriedErrors (snd (snd (executeWithRetry apiHandler
       (testEnv (\<lambda>n. Inl unauthorizedError)) None None)))) \<and>
   attempts (fst (snd (executeWithRetry apiHandler
       (testEnv (\<lambda>n. Inl unauthorizedError)) None None))) = 1"
proof -
  have s: "errorStatus unauthorizedError = Some 401"
    by (simp add: errorStatus_def unauthorizedError_def)
  have cfg: "apiConfig = mergeConfig (defaultConfig apiHandler) None"
    by (simp add: mergeConfig_def apiHandler_def)
  have n: "\<not> isRetryableError unauthorizedError apiConfig"
    by (simp add: retry_eval)
  have att: "attempts (fst (snd (executeWithRetry apiHandler
       (testEnv (\<lambda>n. Inl unauthorizedError)) None None))) = 1"
    by (simp add: retry_eval retryLoop.simps)
  have "categorizeError unauthorizedError = AUTHENTICATION \<and>
        unauthorizedError \<notin> set (retriedErrors (snd (snd (executeWithRetry apiHandler
          (testEnv (\<lambda>n. Inl unauthorizedError)) None None))))"
    using client_errors_not_retried[OF s, of apiConfig, where ?'a = unit] n cfg by auto
  with n att show ?thesis by simp
qed

section \<open>Sorting with a comparator\<close>

lemma mset_insertBy: "mset (insertBy cmp x ys) = add_mset x (mset ys)"
  by (induction ys) auto

lemma mset_sortBy: "mset (sortBy cmp xs) = mset xs"
  by (induction xs) (auto simp: sortBy_def mset_insertBy)

lemma set_insertBy: "set (insertBy cmp x ys) = insert x (set ys)"
  by (induction ys) auto

lemma set_sortBy: "set (sortBy cmp xs) = set xs"
  by (induction xs) (auto simp: sortBy_def set_insertBy)

lemma sorted_insertBy:
  assumes total: "\<And>a b. \<not> cmp a b \<le> 0 \<Longrightarrow> cmp b a \<le> 0"
    and trans: "\<And>a b c. cmp a b \<le> 0 \<Longrightarrow> cmp b c \<le> 0 \<Longrightarrow> cmp a c \<le> 0"
  shows "sorted_wrt (\<lambda>a b. cmp a b \<le> 0) ys \<Longrightarrow>
         sorted_wrt (\<lambda>a b. cmp a b \<le> 0) (insertBy cmp x ys)"
proof (induction ys)
  case Nil
  then show ?case by simp
next
  case (Cons y ys)
  show ?case
  proof (cases "cmp x y \<le> 0")
    case True
    with Cons.prems trans show ?thesis by auto
  next
    case False
    with total have "cmp y x \<le> 0" by blast
    with Cons False show ?thesis by (auto simp: set_insertBy)
  qed
qed

lemma sorted_sortBy:
  assumes "\<And>a b. \<not> cmp a b \<le> 0 \<Longrightarrow> cmp b a \<le> 0"
    and "\<And>a b c. cmp a b \<le> 0 \<Longrightarrow> cmp b c \<le> 0 \<Longrightarrow> cmp a c \<le> 0"
  shows "sorted_wrt (\<lambda>a b. cmp a b \<le> 0) (sortBy cmp xs)"
proof (induction xs)
  case Nil
  then show ?case by (simp add: sortBy_def)
next
  case (Cons x xs)
  have "sortBy cmp (x # xs) = insertBy cmp x (sortBy cmp xs)" by (simp add: sortBy_def)
  with Cons sorted_insertBy[of cmp, OF assms] show ?case by simp
qed

text \<open>Stability: elements that the comparator does not separate keep their order.\<close>

lemma filter_insertBy:
  assumes "\<And>y. y \<in> set ys \<Longrightarrow> P x \<Longrightarrow> P y \<Longrightarrow> cmp x y \<le> 0"
  shows "filter P (insertBy cmp x ys) = (if P x then x # filter P ys else filter P ys)"
  using assms by (induction ys) auto

lemma filter_sortBy:
  assumes "\<And>x y. P x \<Longrightarrow> P y \<Longrightarrow> cmp x y \<le> 0"
  shows "filter P (sortBy cmp xs) = filter P xs"
proof (induction xs)
  case Nil
  then show ?case by (simp add: sortBy_def)
next
  case (Cons x xs)
  have "sortBy cmp (x # xs) = insertBy cmp x (sortBy cmp xs)" by (simp add: sortBy_def)
  with Cons filter_insertBy[of "sortBy cmp xs" P x cmp] assms show ?case by simp
qed

lemma priorityOrder_inj: "priorityOrder p = priorityOrder q \<longleftrightarrow> p = q"
  by (cases p; cases q) (simp_all add: priorityOrder_def)

lemma readyOrder_le:
  "readyOrder a b \<le> 0 \<longleftrightarrow>
     priorityOrder (priority b) < priorityOrder (priority a) \<or>
     (priority a = priority b \<and> scheduledFor a \<le> scheduledFor b)"
  by (cases "priority a"; cases "priority b") (auto simp: readyOrder_def Let_def priorityOrder_def)

lemma sorted_wrt_cong_rel: "(\<And>a b. P a b = Q a b) \<Longrightarrow> sorted_wrt P xs = sorted_wrt Q xs"
  by (induction xs) auto

section \<open>The scheduler's queue\<close>

lemmas sched_eval =
  threeQueued_def emptyScheduler_def addToQueue_def testContent_def updateQueuedContent_def
  mapValues_def testContentForMultiplePlatforms_def testContentForPlatform_def
  contentChecks_def platformRequirements_def noRequirements_def exceeds_def countHashtags_def
  isWordChar_def testPlatformSpecificRequirements_def blogPost_def oneQueued_def
  failingPublisher_def retestPending_def tick_def processScheduledContent_def
  publishAllReady_def publishOneReady_def retryFailedContent_def getReadyContent_def
  sortBy_def readyOrder_def priorityOrder_def allSuccessful_def orDefault_def

text \<open>
  Claim C6, as stated, orders the items of one priority by \<open>scheduledFor\<close> and
  \<open>createdAt\<close>. The comparator of \<open>getReadyContent\<close> reads the priority and
  \<open>scheduledFor\<close> only. Of two ready items of the same priority and the same
  \<open>scheduledFor\<close>, the one that stands first in the queue is returned first, also when
  it was created later: the items come back with \<open>createdAt\<close> 200 before 100.
\<close>

theorem equal_schedule_ignores_createdAt_counterexample:
  "map item_id (mapValues (contentQueue restoredScheduler)) = [''c1'', ''c2''] \<and>
   map status (mapValues (contentQueue restoredScheduler)) = [Ready, Ready] \<and>
   map priority (getReadyContent restoredScheduler 2000) = [Medium, Medium] \<and>
   map scheduledFor (getReadyContent restoredScheduler 2000) = [1000, 1000] \<and>
   map item_id (getReadyContent restoredScheduler 2000) = [''c1'', ''c2''] \<and>
   map createdAt (getReadyContent restoredScheduler 2000) = [200, 100]"
  by (simp add: restoredScheduler_def newContentScheduler_def readyItem_def emptyScheduler_def
      getReadyContent_def mapValues_def sortBy_def readyOrder_def priorityOrder_def)

text \<open>
  Claim C6, amended: \<open>getReadyContent\<close> returns exactly the queued items that are ready and whose
  \<open>scheduledFor\<close> is not after \<open>now\<close> (as a multiset), ordered by priority descending
  (urgent, high, medium, low) and, within a priority, by \<open>scheduledFor\<close> ascending; items
  of equal priority and equal \<open>scheduledFor\<close> keep their queue order (first in, first
  out). Three ready items queued with the priorities low, urgent, medium are returned as
  urgent, medium, low.
\<close>

theorem getReadyContent_order:
  "mset (getReadyContent s now) =
     mset (filter (\<lambda>c. status c = Ready \<and> scheduledFor c \<le> now) (mapValues (contentQueue s))) \<and>
   sorted_wrt (\<lambda>a b. priorityOrder (priority b) < priorityOrder (priority a) \<or>
                     (priority a = priority b \<and> scheduledFor a \<le> scheduledFor b))
     (getReadyContent s now) \<and>
   (\<forall>p t. filter (\<lambda>c. priority c = p \<and> scheduledFor c = t) (getReadyContent s now) =
          filter (\<lambda>c. priority c = p \<and> scheduledFor c = t)
            (filter (\<lambda>c. status c = Ready \<and> scheduledFor c \<le> now) (mapValues (contentQueue s)))) \<and>
   priorityOrder Low < priorityOrder Medium \<and> priorityOrder Medium < priorityOrder High \<and>
   priorityOrder High < priorityOrder Urgent \<and>
   (mapValues (contentQueue s) = [a, b, c] \<and>
    status a = Ready \<and> status b = Ready \<and> status c = Ready \<and>
    scheduledFor a \<le> now \<and> scheduledFor b \<le> now \<and> scheduledFor c \<le> now \<and>
    priority a = Low \<and> priority b = Urgent \<and> priority c = Medium
    \<longrightarrow> getReadyContent s now = [b, c, a])"
proof -
  let ?ready = "filter (\<lambda>c. status c = Ready \<and> scheduledFor c \<le> now) (mapValues (contentQueue s))"
  have g: "getReadyContent s now = sortBy readyOrder ?ready"
    by (simp add: getReadyContent_def)
  have m: "mset (getReadyContent s now) = mset ?ready"
    by (simp add: g mset_sortBy)
  have "sorted_wrt (\<lambda>a b. readyOrder a b \<le> 0) (sortBy readyOrder ?ready)"
  proof (rule sorted_sortBy)
    fix x y :: QueuedContent
    assume "\<not> readyOrder x y \<le> 0"
    then show "readyOrder y x \<le> 0"
      by (cases "priority x"; cases "priority y") (auto simp: readyOrder_le priorityOrder_def)
  next
    fix x y z :: QueuedContent
    assume "readyOrder x y \<le> 0" "readyOrder y z \<le> 0"
    then show "readyOrder x z \<le> 0"
      by (auto simp: readyOrder_le)
  qed
  then have so: "sorted_wrt (\<lambda>a b. priorityOrder (priority b) < priorityOrder (priority a) \<or>
                     (priority a = priority b \<and> scheduledFor a \<le> scheduledFor b))
     (getReadyContent s now)"
    by (simp add: g readyOrder_le)
  have st: "\<forall>p t. filter (\<lambda>c. priority c = p \<and> scheduledFor c = t) (getReadyContent s now) =
          filter (\<lambda>c. priority c = p \<and> scheduledFor c = t) ?ready"
    unfolding g by (intro allI filter_sortBy) (simp add: readyOrder_le)
  have po: "priorityOrder Low < priorityOrder Medium \<and> priorityOrder Medium < priorityOrder High \<and>
   priorityOrder High < priorityOrder Urgent"
    by (simp add: priorityOrder_def)
  have ex: "mapValues (contentQueue s) = [a, b, c] \<and>
    status a = Ready \<and> status b = Ready \<and> status c = Ready \<and>
    scheduledFor a \<le> now \<and> scheduledFor b \<le> now \<and> scheduledFor c \<le> now \<and>
    priority a = Low \<and> priority b = Urgent \<and> priority c = Medium
    \<longrightarrow> getReadyContent s now = [b, c, a]"
    by (simp add: g sortBy_def readyOrder_def priorityOrder_def)
  from m so st po ex show ?thesis by blast
qed

theorem getReadyContent_order_witness:
  "map priority (mapValues (contentQueue threeQueued)) = [Low, Urgent, Medium] \<and>
   map priority (getReadyContent threeQueued 2000) = [Urgent, Medium, Low] \<and>
   map item_id (getReadyContent threeQueued 2000) = [''c2'', ''c3'', ''c1'']"
proof -
  have q: "map (\<lambda>c. (item_id c, priority c, status c, scheduledFor c))
             (mapValues (contentQueue threeQueued)) =
           [(''c1'', Low, Ready, 1000), (''c2'', Urgent, Ready, 1000), (''c3'', Medium, Ready, 1000)]"
    by (simp add: sched_eval)
  then obtain a b c where abc: "mapValues (contentQueue threeQueued) = [a, b, c]"
    by (auto simp: map_eq_Cons_conv)
  with q have f: "item_id a = ''c1'' \<and> item_id b = ''c2'' \<and> item_id c = ''c3'' \<and>
      priority a = Low \<and> priority b = Urgent \<and> priority c = Medium \<and>
      status a = Ready \<and> status b = Ready \<and> status c = Ready \<and>
      scheduledFor a = 1000 \<and> scheduledFor b = 1000 \<and> scheduledFor c = 1000"
    by simp
  with abc getReadyContent_order[of threeQueued 2000 a b c]
  have "getReadyContent threeQueued 2000 = [b, c, a]" by simp
  with abc f show ?thesis by simp
qed

text \<open>
  Claim C5 says that \<open>retryCount\<close> grows each time a failed item is queued again, and that
  an item at the maximum is not queued again. \<open>retryFailedContent\<close> queues a failed item
  again without touching \<open>retryCount\<close>, and \<open>publishAllReady\<close> counts only a publish that
  throws. An item whose publish reports a failure is therefore queued again in every
  round: with \<open>maxRetries = 3\<close>, after five rounds and five publishes it is pending once
  more and its \<open>retryCount\<close> is still undefined.
\<close>

theorem result_failure_requeued_without_count:
  "map (\<lambda>c. (status c, retryCount c, scheduledFor c))
     (mapValues (contentQueue (processScheduledContent failingPublisher oneQueued 2000)))
     = [(Pending, None, 302000)] \<and>
   map (\<lambda>c. (status c, retryCount c))
     (mapValues (contentQueue
        (foldl (tick failingPublisher) oneQueued [2000, 400000, 800000, 1200000, 1600000])))
     = [(Pending, None)] \<and>
   publishCalls (foldl (tick failingPublisher) oneQueued [2000, 400000, 800000, 1200000, 1600000]) = 5"
  by (simp add: sched_eval)

section \<open>The optimal time\<close>

lemma weekday_arith:
  fixes N d :: int
  assumes "0 \<le> d" "d < 7"
  shows "(N + (d - (N + 4) mod 7 + 7) mod 7 + 4) mod 7 = d"
proof -
  have "(N + (d - (N + 4) mod 7 + 7) mod 7 + 4) mod 7 =
        ((N + 4) + (d - (N + 4) mod 7 + 7) mod 7) mod 7"
    by (simp add: algebra_simps)
  also have "\<dots> = ((N + 4) + (d - (N + 4) mod 7 + 7)) mod 7"
    by (rule mod_add_right_eq)
  also have "\<dots> = ((d + 7 + (N + 4)) - (N + 4) mod 7) mod 7"
    by (simp add: algebra_simps)
  also have "\<dots> = ((d + 7 + (N + 4)) - (N + 4)) mod 7"
    by (rule mod_diff_right_eq)
  also have "\<dots> = d" using assms by simp
  finally show ?thesis .
qed

lemma day_hours_div:
  fixes m h :: int
  assumes "0 \<le> h" "h < 24"
  shows "(m * 86400000 + h * 3600000) div 86400000 = m"
proof -
  have "0 \<le> h * 3600000 \<and> h * 3600000 < 86400000" using assms by simp
  then have "(h * 3600000) div 86400000 = 0" by (simp add: div_pos_pos_trivial)
  moreover have "(m * 86400000 + h * 3600000) div 86400000 = m + (h * 3600000) div 86400000"
    by (rule div_mult_self3) simp
  ultimately show ?thesis by simp
qed

lemma jsRem_pos: "0 < a \<Longrightarrow> 0 < b \<Longrightarrow> jsRem a b = a mod b"
  by (simp add: jsRem_def)

lemma createTimeForDay_window:
  assumes "0 \<le> d" "d < 7" "0 \<le> h" "h < 24"
  shows "\<exists>k. 0 \<le> k \<and> k < 7 \<and>
           createTimeForDay now d h = (now div 86400000 + k) * 86400000 + h * 3600000 \<and>
           getDay (createTimeForDay now d h) = d"
proof -
  define N where "N = now div 86400000"
  define k where "k = (d - (N + 4) mod 7 + 7) mod 7"
  have k1: "0 \<le> k" and k2: "k < 7" by (simp_all add: k_def)
  have c: "0 \<le> (N + 4) mod 7 \<and> (N + 4) mod 7 < 7" by simp
  have pos: "0 < d - (N + 4) mod 7 + 7" using assms c by linarith
  have g: "getDay now = (N + 4) mod 7" by (simp only: getDay_def N_def)
  have j: "jsRem (d - getDay now + 7) 7 = k"
    unfolding g k_def using pos by (intro jsRem_pos) simp_all
  have "(now + k * 86400000) div 86400000 = k + now div 86400000"
    by (rule div_mult_self1) simp
  then have dv: "(now + k * 86400000) div 86400000 = N + k"
    by (simp only: N_def add.commute)
  have ct: "createTimeForDay now d h = (N + k) * 86400000 + h * 3600000"
    unfolding createTimeForDay_def Let_def j dv by (rule refl)
  have gd: "getDay (createTimeForDay now d h) = d"
  proof -
  have "getDay (createTimeForDay now d h) = (N + k + 4) mod 7"
    unfolding ct getDay_def by (simp only: day_hours_div[OF assms(3,4), of "N + k"])
  also have "\<dots> = d"
    unfolding k_def using weekday_arith[OF assms(1,2), of N] by (simp only: add.assoc)
  finally show ?thesis .
  qed
  show ?thesis
  proof (intro exI[of _ k] conjI)
    show "0 \<le> k" by (rule k1)
    show "k < 7" by (rule k2)
    show "createTimeForDay now d h = (now div 86400000 + k) * 86400000 + h * 3600000"
      using ct by (simp only: N_def)
    show "getDay (createTimeForDay now d h) = d" by (rule gd)
  qed
qed

lemma considerSlot_fold:
  fixes now :: int
  defines "fut \<equiv> (\<lambda>t. now < createTimeForDay now (dayOfWeek t) (hour t))"
  shows
  "((\<forall>t \<in> set (filter fut xs). engagement t \<le> bs) \<and>
     foldl (considerSlot now) (bt, bs) xs = (bt, bs)) \<or>
   (\<exists>pre t post.
      filter fut xs = pre @ t # post \<and>
      (\<forall>u \<in> set pre. engagement u < engagement t) \<and>
      (\<forall>u \<in> set post. engagement u \<le> engagement t) \<and>
      bs < engagement t \<and>
      foldl (considerSlot now) (bt, bs) xs =
        (createTimeForDay now (dayOfWeek t) (hour t), engagement t))"
proof (induction xs rule: rev_induct)
  case Nil
  then show ?case by simp
next
  case (snoc x xs)
  have step: "\<And>b s. considerSlot now (b, s) x =
      (if fut x \<and> s < engagement x
       then (createTimeForDay now (dayOfWeek x) (hour x), engagement x) else (b, s))"
    by (simp add: considerSlot_def fut_def Let_def)
  from snoc.IH show ?case
  proof
    assume "(\<forall>t \<in> set (filter fut xs). engagement t \<le> bs) \<and>
            foldl (considerSlot now) (bt, bs) xs = (bt, bs)"
    then have a: "\<forall>t \<in> set (filter fut xs). engagement t \<le> bs"
      and f: "foldl (considerSlot now) (bt, bs) xs = (bt, bs)" by blast+
    show ?thesis
    proof (cases "fut x \<and> bs < engagement x")
      case True
      have 1: "filter fut (xs @ [x]) = filter fut xs @ x # []" using True by simp
      have 2: "\<forall>u \<in> set (filter fut xs). engagement u < engagement x"
        using a True by force
      have 3: "foldl (considerSlot now) (bt, bs) (xs @ [x]) =
          (createTimeForDay now (dayOfWeek x) (hour x), engagement x)"
        using True f by (simp add: step)
      have "\<exists>pre t post.
        filter fut (xs @ [x]) = pre @ t # post \<and>
        (\<forall>u \<in> set pre. engagement u < engagement t) \<and>
        (\<forall>u \<in> set post. engagement u \<le> engagement t) \<and>
        bs < engagement t \<and>
        foldl (considerSlot now) (bt, bs) (xs @ [x]) =
          (createTimeForDay now (dayOfWeek t) (hour t), engagement t)"
        apply (rule exI[of _ "filter fut xs"])
        apply (rule exI[of _ x])
        apply (rule exI[of _ "[]"])
        using 1 2 3 True by simp
      then show ?thesis by (rule disjI2)
    next
      case False
      then have "foldl (considerSlot now) (bt, bs) (xs @ [x]) = (bt, bs)"
        using f by (simp add: step)
      moreover have "\<forall>t \<in> set (filter fut (xs @ [x])). engagement t \<le> bs"
        using a False by auto
      ultimately show ?thesis by (intro disjI1 conjI)
    qed
  next
    assume "\<exists>pre t post.
      filter fut xs = pre @ t # post \<and>
      (\<forall>u \<in> set pre. engagement u < engagement t) \<and>
      (\<forall>u \<in> set post. engagement u \<le> engagement t) \<and>
      bs < engagement t \<and>
      foldl (considerSlot now) (bt, bs) xs =
        (createTimeForDay now (dayOfWeek t) (hour t), engagement t)"
    then obtain pre t post where d: "filter fut xs = pre @ t # post"
      and p: "\<forall>u \<in> set pre. engagement u < engagement t"
      and q: "\<forall>u \<in> set post. engagement u \<le> engagement t"
      and b: "bs < engagement t"
      and f: "foldl (considerSlot now) (bt, bs) xs =
                (createTimeForDay now (dayOfWeek t) (hour t), engagement t)"
      by blast
    have "\<exists>pre' t' post'.
        filter fut (xs @ [x]) = pre' @ t' # post' \<and>
        (\<forall>u \<in> set pre'. engagement u < engagement t') \<and>
        (\<forall>u \<in> set post'. engagement u \<le> engagement t') \<and>
        bs < engagement t' \<and>
        foldl (considerSlot now) (bt, bs) (xs @ [x]) =
          (createTimeForDay now (dayOfWeek t') (hour t'), engagement t')"
    proof (cases "fut x \<and> engagement t < engagement x")
      case True
      have 1: "filter fut (xs @ [x]) = (pre @ t # post) @ x # []" using True d by simp
      have 2: "\<forall>u \<in> set (pre @ t # post). engagement u < engagement x"
        using p q True by force
      have 3: "foldl (considerSlot now) (bt, bs) (xs @ [x]) =
          (createTimeForDay now (dayOfWeek x) (hour x), engagement x)"
        using True f by (simp add: step)
      have 4: "bs < engagement x" using b True by simp
      show ?thesis
        apply (rule exI[of _ "pre @ t # post"])
        apply (rule exI[of _ x])
        apply (rule exI[of _ "[]"])
        using 1 2 3 4 by simp
    next
      case False
      then have f': "foldl (considerSlot now) (bt, bs) (xs @ [x]) =
          (createTimeForDay now (dayOfWeek t) (hour t), engagement t)"
        using f by (simp add: step)
      have 1: "filter fut (xs @ [x]) = pre @ t # (post @ (if fut x then [x] else []))"
        using d by simp
      have 2: "\<forall>u \<in> set (post @ (if fut x then [x] else [])). engagement u \<le> engagement t"
        using q False by auto
      show ?thesis
        apply (rule exI[of _ pre])
        apply (rule exI[of _ t])
        apply (rule exI[of _ "post @ (if fut x then [x] else [])"])
        using 1 2 p b f' by simp
    qed
    then show ?thesis by (rule disjI2)
  qed
qed

text \<open>
  Claim C8, as stated, fails: of two future slots with the same, highest engagement the
  computation returns the one listed first, not the nearest. On Monday 1 January 2024,
  12:00 UTC, with the slots Friday 9:00 and Tuesday 9:00 (engagement 80 each, in this
  order), it returns Friday 9:00, although Tuesday 9:00 is earlier and still in the
  future.
\<close>

theorem listed_first_not_nearest_counterexample:
  "calculateOptimalTime tieConfig [''wordpress''] 1704110400000 = 1704445200000 \<and>
   createTimeForDay 1704110400000 5 9 = 1704445200000 \<and>
   createTimeForDay 1704110400000 2 9 = 1704186000000 \<and>
   (1704110400000 :: int) < 1704186000000 \<and> (1704186000000 :: int) < 1704445200000"
  by (simp add: calculateOptimalTime_def tieConfig_def slotsOf_def considerSlot_def
      createTimeForDay_def getDay_def jsRem_def)

text \<open>
  Claim C8, amended: \<open>calculateOptimalTime\<close> returns exactly \<open>now\<close> + 1 hour when no slot
  data is configured. Otherwise it places every slot of the requested targets (in the
  order of the targets, then of their slots) on the slot's hour of the slot's weekday
  between today and six days ahead, keeps the slots whose time is after \<open>now\<close> and whose
  engagement is positive, and returns the time of the first kept slot that has the
  highest engagement among them; when no slot is kept it returns \<open>now\<close> + 1 hour.
\<close>

theorem calculateOptimalTime_first_best:
  "(optimalTimes cfg = None \<longrightarrow> calculateOptimalTime cfg ps now = now + 3600000) \<and>
   (\<forall>ot. optimalTimes cfg = Some ot \<longrightarrow>
      (filter (\<lambda>t. now < createTimeForDay now (dayOfWeek t) (hour t) \<and> 0 < engagement t)
         (slotsOf ot ps) = [] \<longrightarrow>
       calculateOptimalTime cfg ps now = now + 3600000) \<and>
      (filter (\<lambda>t. now < createTimeForDay now (dayOfWeek t) (hour t) \<and> 0 < engagement t)
         (slotsOf ot ps) \<noteq> [] \<longrightarrow>
       (\<exists>pre t post.
          filter (\<lambda>t. now < createTimeForDay now (dayOfWeek t) (hour t) \<and> 0 < engagement t)
            (slotsOf ot ps) = pre @ t # post \<and>
          (\<forall>u \<in> set pre. engagement u < engagement t) \<and>
          (\<forall>u \<in> set post. engagement u \<le> engagement t) \<and>
          calculateOptimalTime cfg ps now = createTimeForDay now (dayOfWeek t) (hour t)))) \<and>
   (\<forall>t :: OptimalTime. 0 \<le> dayOfWeek t \<and> dayOfWeek t < 7 \<and> 0 \<le> hour t \<and> hour t < 24 \<longrightarrow>
      (\<exists>k. 0 \<le> k \<and> k < 7 \<and>
           createTimeForDay now (dayOfWeek t) (hour t) =
             (now div 86400000 + k) * 86400000 + hour t * 3600000 \<and>
           getDay (createTimeForDay now (dayOfWeek t) (hour t)) = dayOfWeek t))"
proof (intro conjI allI impI)
  assume "optimalTimes cfg = None"
  then show "calculateOptimalTime cfg ps now = now + 3600000"
    by (simp add: calculateOptimalTime_def)
next
  fix ot
  let ?fut = "\<lambda>t. now < createTimeForDay now (dayOfWeek t) (hour t)"
  let ?cands = "filter (\<lambda>t. ?fut t \<and> 0 < engagement t) (slotsOf ot ps)"
  assume ot: "optimalTimes cfg = Some ot"
  then have r: "calculateOptimalTime cfg ps now =
      fst (foldl (considerSlot now) (now + 3600000, 0) (slotsOf ot ps))"
    by (simp add: calculateOptimalTime_def)
  have c: "?cands = filter (\<lambda>t. 0 < engagement t) (filter ?fut (slotsOf ot ps))"
    by (simp add: conj_commute)
  note fold = considerSlot_fold[of now "slotsOf ot ps" 0 "now + 3600000"]
  {
    assume e: "?cands = []"
    have "\<not> (\<exists>pre t post. filter ?fut (slotsOf ot ps) = pre @ t # post \<and> 0 < engagement t)"
    proof
      assume "\<exists>pre t post. filter ?fut (slotsOf ot ps) = pre @ t # post \<and> 0 < engagement t"
      then obtain pre t post where "filter ?fut (slotsOf ot ps) = pre @ t # post" "0 < engagement t"
        by blast
      then have "t \<in> set ?cands" unfolding c by simp
      with e show False by simp
    qed
    with fold have "foldl (considerSlot now) (now + 3600000, 0) (slotsOf ot ps) = (now + 3600000, 0)"
      by blast
    then show "calculateOptimalTime cfg ps now = now + 3600000" by (simp add: r)
  }
  {
    assume ne: "?cands \<noteq> []"
    then obtain u where u: "u \<in> set (filter ?fut (slotsOf ot ps))" "0 < engagement u"
      unfolding c by (metis (mono_tags, lifting) filter_False)
    then have "\<not> (\<forall>t \<in> set (filter ?fut (slotsOf ot ps)). engagement t \<le> 0)" by force
    with fold obtain pre t post where d: "filter ?fut (slotsOf ot ps) = pre @ t # post"
      and p: "\<forall>u \<in> set pre. engagement u < engagement t"
      and q: "\<forall>u \<in> set post. engagement u \<le> engagement t"
      and b: "0 < engagement t"
      and f: "foldl (considerSlot now) (now + 3600000, 0) (slotsOf ot ps) =
                (createTimeForDay now (dayOfWeek t) (hour t), engagement t)"
      by blast
    have 1: "?cands = filter (\<lambda>t. 0 < engagement t) pre @ t # filter (\<lambda>t. 0 < engagement t) post"
      unfolding c d using b by simp
    show "\<exists>pre t post. ?cands = pre @ t # post \<and>
          (\<forall>u \<in> set pre. engagement u < engagement t) \<and>
          (\<forall>u \<in> set post. engagement u \<le> engagement t) \<and>
          calculateOptimalTime cfg ps now = createTimeForDay now (dayOfWeek t) (hour t)"
      apply (rule exI[of _ "filter (\<lambda>t. 0 < engagement t) pre"])
      apply (rule exI[of _ t])
      apply (rule exI[of _ "filter (\<lambda>t. 0 < engagement t) post"])
      using 1 p q f r by simp
  }
next
  fix t :: OptimalTime
  assume a: "0 \<le> dayOfWeek t \<and> dayOfWeek t < 7 \<and> 0 \<le> hour t \<and> hour t < 24"
  show "\<exists>k. 0 \<le> k \<and> k < 7 \<and>
           createTimeForDay now (dayOfWeek t) (hour t) =
             (now div 86400000 + k) * 86400000 + hour t * 3600000 \<and>
           getDay (createTimeForDay now (dayOfWeek t) (hour t)) = dayOfWeek t"
    by (rule createTimeForDay_window) (use a in simp_all)
qed

theorem calculateOptimalTime_first_best_witness:
  "calculateOptimalTime tieConfig [''wordpress''] 1704110400000 = 1704445200000 \<and>
   calculateOptimalTime (tieConfig\<lparr>optimalTimes := None\<rparr>) [''wordpress''] 1704110400000
     = 1704110400000 + 3600000"
proof -
  let ?fri = "\<lparr>dayOfWeek = 5, hour = 9, engagement = 80\<rparr>"
  let ?tue = "\<lparr>dayOfWeek = 2, hour = 9, engagement = 80\<rparr>"
  let ?ot = "[''wordpress'' \<mapsto> [?fri, ?tue]]"
  have o: "optimalTimes tieConfig = Some ?ot" by (simp add: tieConfig_def)
  have c: "filter (\<lambda>t. 1704110400000 < createTimeForDay 1704110400000 (dayOfWeek t) (hour t) \<and>
                        0 < engagement t) (slotsOf ?ot [''wordpress'']) = [?fri, ?tue]"
    by (simp add: slotsOf_def createTimeForDay_def getDay_def jsRem_def)
  from conjunct1[OF conjunct2[OF
      calculateOptimalTime_first_best[of tieConfig "[''wordpress'']" 1704110400000]]] o c
  obtain pre t post where d: "[?fri, ?tue] = pre @ t # post"
    and p: "\<forall>u \<in> set pre. engagement u < engagement t"
    and r: "calculateOptimalTime tieConfig [''wordpress''] 1704110400000 =
            createTimeForDay 1704110400000 (dayOfWeek t) (hour t)"
    by auto
  from d p have "t = ?fri"
    by (cases pre) (auto simp: Cons_eq_append_conv)
  with r have a: "calculateOptimalTime tieConfig [''wordpress''] 1704110400000 = 1704445200000"
    by (simp add: createTimeForDay_def getDay_def jsRem_def)
  have n: "optimalTimes (tieConfig\<lparr>optimalTimes := None\<rparr>) = None" by simp
  from conjunct1[OF calculateOptimalTime_first_best[of "tieConfig\<lparr>optimalTimes := None\<rparr>"
      "[''wordpress'']" 1704110400000]] n
  have "calculateOptimalTime (tieConfig\<lparr>optimalTimes := None\<rparr>) [''wordpress''] 1704110400000
     = 1704110400000 + 3600000" by blast
  with a show ?thesis by simp
qed

section \<open>The best platforms\<close>

lemma map_of_mapSet: "map_of (mapSet k v m) = (map_of m)(k \<mapsto> v)"
  by (induction m) (auto simp: fun_eq_iff)

lemma map_of_testAll_aux:
  "map_of (foldl (\<lambda>results p. mapSet p (f p) results) acc ps) p =
     (if p \<in> set ps then Some (f p) else map_of acc p)"
  by (induction ps arbitrary: acc) (auto simp: map_of_mapSet)

lemma map_of_testContentForMultiplePlatforms:
  "map_of (testContentForMultiplePlatforms c ps) p =
     (if p \<in> set ps then Some (testContentForPlatform c p) else None)"
  by (simp add: testContentForMultiplePlatforms_def map_of_testAll_aux)

lemma insertBy_map:
  "insertBy cmp (f x) (map f ys) = map f (insertBy (\<lambda>a b. cmp (f a) (f b)) x ys)"
  by (induction ys) auto

lemma sortBy_map: "sortBy cmp (map f xs) = map f (sortBy (\<lambda>a b. cmp (f a) (f b)) xs)"
  by (induction xs) (auto simp: sortBy_def insertBy_map)

lemma getBestPlatformsForContent_eq:
  "getBestPlatformsForContent c ps =
     sortBy (\<lambda>a b. score (testContentForPlatform c b) - score (testContentForPlatform c a))
       (filter (\<lambda>p. isCompatible (testContentForPlatform c p)) ps)"
proof -
  have "map (\<lambda>p. (p, case map_of (testContentForMultiplePlatforms c ps) p of
                        Some r \<Rightarrow> r | None \<Rightarrow> testContentForPlatform c p)) ps =
        map (\<lambda>p. (p, testContentForPlatform c p)) ps"
    by (simp add: map_of_testContentForMultiplePlatforms)
  then have "getBestPlatformsForContent c ps =
      map fst (sortBy (\<lambda>a b. score (snd b) - score (snd a))
        (filter (\<lambda>item. isCompatible (snd item)) (map (\<lambda>p. (p, testContentForPlatform c p)) ps)))"
    by (simp only: getBestPlatformsForContent_def Let_def)
  also have "\<dots> = sortBy (\<lambda>a b. score (testContentForPlatform c b) - score (testContentForPlatform c a))
       (filter (\<lambda>p. isCompatible (testContentForPlatform c p)) ps)"
    by (simp add: filter_map o_def sortBy_map)
  finally show ?thesis .
qed

text \<open>
  Claim C9, as stated, fails in its last part: nothing in \<open>getBestPlatformsForContent\<close>
  compares target identifiers. The blog post scores 100 on both \<open>wordpress\<close> and
  \<open>ghost\<close>; asked for them in this order, the function returns \<open>wordpress\<close> first,
  although \<open>ghost\<close> comes first in lexical order.
\<close>

theorem equal_scores_keep_input_order_counterexample:
  "getBestPlatformsForContent blogPost [''wordpress'', ''ghost''] = [''wordpress'', ''ghost''] \<and>
   score (testContentForPlatform blogPost ''wordpress'') = 100 \<and>
   score (testContentForPlatform blogPost ''ghost'') = 100 \<and>
   ord.lexordp (\<lambda>a b. (of_char a :: nat) < of_char b) ''ghost'' ''wordpress''"
  by code_simp

text \<open>
  Claim C9, amended: \<open>getBestPlatformsForContent\<close> returns exactly the available targets
  whose test result is compatible (as a multiset), ordered by descending compatibility
  score; targets with equal scores keep the order they have in the list of available
  targets.
\<close>

theorem getBestPlatformsForContent_stable:
  "mset (getBestPlatformsForContent c ps) =
     mset (filter (\<lambda>p. isCompatible (testContentForPlatform c p)) ps) \<and>
   sorted_wrt (\<lambda>a b. score (testContentForPlatform c b) \<le> score (testContentForPlatform c a))
     (getBestPlatformsForContent c ps) \<and>
   (\<forall>k. filter (\<lambda>p. score (testContentForPlatform c p) = k) (getBestPlatformsForContent c ps) =
        filter (\<lambda>p. score (testContentForPlatform c p) = k)
          (filter (\<lambda>p. isCompatible (testContentForPlatform c p)) ps))"
proof -
  let ?cmp = "\<lambda>a b. score (testContentForPlatform c b) - score (testContentForPlatform c a)"
  let ?ok = "filter (\<lambda>p. isCompatible (testContentForPlatform c p)) ps"
  have g: "getBestPlatformsForContent c ps = sortBy ?cmp ?ok"
    by (rule getBestPlatformsForContent_eq)
  have a: "mset (getBestPlatformsForContent c ps) = mset ?ok"
    by (simp add: g mset_sortBy)
  have "sorted_wrt (\<lambda>a b. ?cmp a b \<le> 0) (sortBy ?cmp ?ok)"
    by (rule sorted_sortBy) auto
  then have b: "sorted_wrt (\<lambda>a b. score (testContentForPlatform c b) \<le> score (testContentForPlatform c a))
     (getBestPlatformsForContent c ps)"
    by (simp add: g)
  have s: "\<forall>k. filter (\<lambda>p. score (testContentForPlatform c p) = k) (getBestPlatformsForContent c ps) =
        filter (\<lambda>p. score (testContentForPlatform c p) = k) ?ok"
    unfolding g by (intro allI filter_sortBy) simp
  from a b s show ?thesis by blast
qed

theorem getBestPlatformsForContent_stable_witness:
  "filter (\<lambda>p. score (testContentForPlatform blogPost p) = 100)
     (getBestPlatformsForContent blogPost [''twitter'', ''wordpress'', ''ghost''])
     = [''wordpress'', ''ghost''] \<and>
   getBestPlatformsForContent blogPost [''twitter'', ''wordpress'', ''ghost'']
     = [''wordpress'', ''ghost'', ''twitter'']"
proof -
  let ?ps = "[''twitter'', ''wordpress'', ''ghost'']"
  have f: "filter (\<lambda>p. score (testContentForPlatform blogPost p) = 100)
             (filter (\<lambda>p. isCompatible (testContentForPlatform blogPost p)) ?ps)
           = [''wordpress'', ''ghost'']"
    by code_simp
  from getBestPlatformsForContent_stable[of blogPost ?ps] f
  have "filter (\<lambda>p. score (testContentForPlatform blogPost p) = 100)
          (getBestPlatformsForContent blogPost ?ps) = [''wordpress'', ''ghost'']"
    by simp
  moreover have "getBestPlatformsForContent blogPost ?ps = [''wordpress'', ''ghost'', ''twitter'']"
    by code_simp
  ultimately show ?thesis by simp
qed

section \<open>Bulk publishing in waves\<close>













lemma started_publishedBy:
  "map (\<lambda>i. Started (item_id i)) xs = map (\<lambda>p. Started (fst p)) (publishedBy publisher k xs)"
  by (induction xs arbitrary: k) simp_all


























lemma snd_withBulkEvents: "snd (withBulkEvents evs x) = evs @ snd x"
  by (cases x) (simp add: withBulkEvents_def)

lemma fst_withBulkEvents: "fst (withBulkEvents evs x) = fst x"
  by (cases x) (simp add: withBulkEvents_def)











end
